(* ===== verification/Prelude.thy ===== *)
theory Prelude
  imports Main "HOL-Library.AList" "HOL-Library.Multiset"
begin

text \<open>
  Shared vocabulary of the development: a model of the JavaScript values the hook
  handles, JavaScript objects as insertion-ordered association lists, and the generic
  lemmas on them that every component theory uses.

  \<^item> \<open>jsval\<close> is a JavaScript value. Numbers are integers (no NaN, no \<open>-0\<close>, so
    \<open>Object.is\<close> and \<open>===\<close> coincide); an object carries its allocation identity,
    so that strict equality compares objects by reference, as JavaScript does, and
    primitives by value.
  \<^item> \<open>'a obj\<close> is a plain JavaScript object: an association list in insertion order.
    \<open>{...ob, [k]: v}\<close> is \<^const>\<open>AList.update\<close>: it replaces the value of a present
    key in place and appends an absent one at the end.
  \<^item> \<open>js_own_keys\<close> is the order in which \<open>for ... in\<close> and \<open>Object.keys\<close>
    enumerate a plain object (OrdinaryOwnPropertyKeys): the keys that are array indices
    (canonical decimal numerals below \<open>2^32 - 1\<close>) first, in ascending numeric order,
    then the other keys in insertion order (\<open>js_own_keys_index_sorted\<close>,
    \<open>js_own_keys_others\<close>). \<open>mset_js_own_keys\<close> and \<open>js_own_keys_plain\<close>
    relate it to the insertion order: a permutation of it, and equal to it on objects
    without array-index keys. Where the enumeration order is
    not observable (\<open>some\<close>, \<open>every\<close>, writes of distinct keys into one object),
    the components iterate the insertion order.
\<close>

named_theorems js_simps "evaluation rules of the JavaScript value model"

datatype jsval =
    JUndefined
  | JNull
  | JBool bool
  | JNum int
  | JStr string
  | JObj nat "(string \<times> jsval) list"

type_synonym 'a obj = "(string \<times> 'a) list"

abbreviation obj_keys :: "'a obj \<Rightarrow> string list" where
  "obj_keys ob \<equiv> map fst ob"

text \<open>\<open>ob[k]\<close>: the value stored under \<open>k\<close>, \<open>undefined\<close> when there is none.\<close>

definition js_get :: "jsval obj \<Rightarrow> string \<Rightarrow> jsval" where
  "js_get ob k = (case map_of ob k of None \<Rightarrow> JUndefined | Some v \<Rightarrow> v)"

text \<open>Optional chaining \<open>x?.p\<close>: \<open>undefined\<close> on \<open>null\<close>, \<open>undefined\<close> and primitives.\<close>

fun js_prop :: "jsval \<Rightarrow> string \<Rightarrow> jsval" where
  "js_prop (JObj _ props) p = js_get props p"
| "js_prop _ p = JUndefined"

definition js_nullish :: "jsval \<Rightarrow> bool" where
  "js_nullish v \<longleftrightarrow> v = JUndefined \<or> v = JNull"

text \<open>Nullish coalescing \<open>a ?? b\<close>.\<close>

definition js_coalesce :: "jsval \<Rightarrow> jsval \<Rightarrow> jsval" where
  "js_coalesce a b = (if js_nullish a then b else a)"

text \<open>Strict equality \<open>===\<close>: objects by identity, primitives by value.\<close>

fun js_strict_eq :: "jsval \<Rightarrow> jsval \<Rightarrow> bool" where
  "js_strict_eq JUndefined JUndefined = True"
| "js_strict_eq JNull JNull = True"
| "js_strict_eq (JBool a) (JBool b) = (a = b)"
| "js_strict_eq (JNum a) (JNum b) = (a = b)"
| "js_strict_eq (JStr a) (JStr b) = (a = b)"
| "js_strict_eq (JObj i _) (JObj j _) = (i = j)"
| "js_strict_eq _ _ = False"

text \<open>Object spread \<open>{...a, ...b}\<close>: the entries of \<open>b\<close> written over \<open>a\<close> in \<open>b\<close>'s order.\<close>

definition js_spread :: "'a obj \<Rightarrow> 'a obj \<Rightarrow> 'a obj" where
  "js_spread a b = foldl (\<lambda>acc (k, v). AList.update k v acc) a b"

text \<open>A JavaScript object key set is duplicate-free.\<close>

abbreviation wf_obj :: "'a obj \<Rightarrow> bool" where
  "wf_obj ob \<equiv> distinct (obj_keys ob)"

text \<open>Array-index keys: a canonical decimal numeral (no leading zero, except \<open>''0''\<close>
  itself) whose value is below \<open>2^32 - 1\<close>.\<close>

definition is_digit :: "char \<Rightarrow> bool" where
  "is_digit c \<longleftrightarrow> c \<in> set ''0123456789''"

definition digits_value :: "string \<Rightarrow> nat" where
  "digits_value k = foldl (\<lambda>n c. 10 * n + (of_char c - 48)) 0 k"

definition is_array_index :: "string \<Rightarrow> bool" where
  "is_array_index k \<longleftrightarrow>
     k \<noteq> [] \<and> list_all is_digit k \<and> (k = ''0'' \<or> hd k \<noteq> CHR ''0'')
     \<and> digits_value k < 4294967295"

text \<open>The enumeration order of \<open>for ... in\<close> and \<open>Object.keys\<close> on a plain object.\<close>

definition js_own_keys :: "'a obj \<Rightarrow> string list" where
  "js_own_keys ob =
     sort_key digits_value (filter is_array_index (obj_keys ob))
     @ filter (\<lambda>k. \<not> is_array_index k) (obj_keys ob)"

subsection \<open>Strict equality\<close>

lemma js_strict_eq_refl [simp]: "js_strict_eq v v"
  by (cases v) simp_all

lemma js_strict_eq_sym: "js_strict_eq a b \<longleftrightarrow> js_strict_eq b a"
  by (cases a; cases b) auto

lemma js_strict_eq_trans: "js_strict_eq a b \<Longrightarrow> js_strict_eq b c \<Longrightarrow> js_strict_eq a c"
  by (cases a; cases b; cases c) auto

lemma js_strict_eq_null [simp]:
  "js_strict_eq v JNull \<longleftrightarrow> v = JNull" "js_strict_eq JNull v \<longleftrightarrow> v = JNull"
  by (cases v; simp)+

lemma js_strict_eq_prim [simp]:
  "js_strict_eq v JUndefined \<longleftrightarrow> v = JUndefined"
  "js_strict_eq v (JBool b) \<longleftrightarrow> v = JBool b"
  "js_strict_eq v (JNum n) \<longleftrightarrow> v = JNum n"
  "js_strict_eq v (JStr s) \<longleftrightarrow> v = JStr s"
  by (cases v; auto)+

text \<open>Away from objects, strict equality is equality.\<close>

lemma js_strict_eq_iff_eq:
  "(\<forall>i ps. a \<noteq> JObj i ps) \<Longrightarrow> js_strict_eq a b \<longleftrightarrow> a = b"
  by (cases a; cases b) auto

lemma js_strict_eq_eq [intro]: "a = b \<Longrightarrow> js_strict_eq a b"
  by simp

subsection \<open>Property reads\<close>

lemma js_get_Nil [simp, js_simps]: "js_get [] k = JUndefined"
  by (simp add: js_get_def)

lemma js_get_Cons [simp, js_simps]:
  "js_get ((a, b) # ps) k = (if k = a then b else js_get ps k)"
  by (simp add: js_get_def)

lemma js_get_update [simp, js_simps]:
  "js_get (AList.update k v ob) k' = (if k' = k then v else js_get ob k')"
  by (simp add: js_get_def AList.update_conv')

lemma js_get_notin: "k \<notin> set (obj_keys ob) \<Longrightarrow> js_get ob k = JUndefined"
  using map_of_eq_None_iff [of ob k] by (simp add: js_get_def)

lemma js_get_in: "(k, v) \<in> set ob \<Longrightarrow> wf_obj ob \<Longrightarrow> js_get ob k = v"
  by (simp add: js_get_def)

lemma js_coalesce_simps [simp, js_simps]:
  "js_coalesce JUndefined b = b"
  "js_coalesce JNull b = b"
  "js_coalesce (JBool x) b = JBool x"
  "js_coalesce (JNum n) b = JNum n"
  "js_coalesce (JStr s) b = JStr s"
  "js_coalesce (JObj i ps) b = JObj i ps"
  by (simp_all add: js_coalesce_def js_nullish_def)

subsection \<open>Updates and spreads\<close>

lemma update_keys_in [simp]:
  "k \<in> set (obj_keys ob) \<Longrightarrow> obj_keys (AList.update k v ob) = obj_keys ob"
  by (simp add: AList.update_keys)

lemma wf_obj_update [simp, intro]: "wf_obj ob \<Longrightarrow> wf_obj (AList.update k v ob)"
  by (rule AList.distinct_update)

lemma js_spread_Nil [simp]: "js_spread a [] = a"
  by (simp add: js_spread_def)

lemma js_spread_Cons [simp]:
  "js_spread a ((k, v) # ps) = js_spread (AList.update k v a) ps"
  by (simp add: js_spread_def)

lemma js_spread_snoc:
  "js_spread a (b @ [(k, v)]) = AList.update k v (js_spread a b)"
  by (simp add: js_spread_def)

text \<open>Later entries of the spread win: the map of \<open>{...a, ...b}\<close> is \<open>a\<close> overridden by
  \<open>b\<close> read from the back.\<close>

lemma map_of_spread:
  "map_of (js_spread a b) = map_of a ++ map_of (rev b)"
proof (induction b rule: rev_induct)
  case Nil
  then show ?case by simp
next
  case (snoc p b)
  obtain k v where p: "p = (k, v)" by (cases p)
  with snoc show ?case
    by (simp add: js_spread_snoc AList.update_conv' fun_eq_iff map_add_def split: option.splits)
qed

lemma map_of_rev_distinct: "wf_obj m \<Longrightarrow> map_of (rev m) = map_of m"
proof (induction m)
  case Nil
  then show ?case by simp
next
  case (Cons p m)
  then show ?case
    by (cases p) (simp add: map_add_upd_left dom_map_of_conv_image_fst)
qed

lemma case_map_of_js_get:
  "(case map_of m k of None \<Rightarrow> a | Some v \<Rightarrow> v) = (if k \<in> set (obj_keys m) then js_get m k else a)"
proof (cases "map_of m k")
  case None
  then have "k \<notin> set (obj_keys m)" by (simp add: map_of_eq_None_iff)
  with None show ?thesis by simp
next
  case (Some v)
  then have "k \<in> set (obj_keys m)" by (force dest: map_of_SomeD)
  with Some show ?thesis by (simp add: js_get_def)
qed

lemma js_get_spread [js_simps]:
  "js_get (js_spread a b) k = (case map_of (rev b) k of None \<Rightarrow> js_get a k | Some v \<Rightarrow> v)"
  by (simp add: js_get_def map_of_spread map_add_def split: option.splits)

lemma wf_obj_spread [simp, intro]: "wf_obj a \<Longrightarrow> wf_obj (js_spread a b)"
  by (induction b arbitrary: a) auto

lemma keys_spread: "set (obj_keys (js_spread a b)) = set (obj_keys a) \<union> set (obj_keys b)"
proof (induction b arbitrary: a)
  case Nil
  then show ?case by simp
next
  case (Cons p b)
  then show ?case by (cases p) (auto simp: AList.dom_update)
qed

lemma js_get_fold_update:
  "js_get (foldl (\<lambda>acc k. AList.update k (f k) acc) a ks) k =
     (if k \<in> set ks then f k else js_get a k)"
  by (induction ks arbitrary: a) auto

subsection \<open>Enumeration order\<close>

lemmas js_order_defs = js_own_keys_def is_array_index_def is_digit_def digits_value_def

lemma mset_js_own_keys: "mset (js_own_keys ob) = mset (obj_keys ob)"
  by (simp add: js_own_keys_def mset_filter)

lemma set_js_own_keys [simp]: "set (js_own_keys ob) = set (obj_keys ob)"
  by (metis mset_js_own_keys set_mset_mset)

lemma js_own_keys_plain:
  "\<not> list_ex is_array_index (obj_keys ob) \<Longrightarrow> js_own_keys ob = obj_keys ob"
  by (simp add: js_own_keys_def list_ex_iff filter_False filter_True)

lemma js_own_keys_index_sorted:
  "sorted (map digits_value (filter is_array_index (js_own_keys ob)))"
proof -
  have "filter is_array_index (js_own_keys ob) = sort_key digits_value (filter is_array_index (obj_keys ob))"
    by (simp add: js_own_keys_def filter_True)
  then show ?thesis by (simp add: sorted_sort_key)
qed

lemma js_own_keys_others:
  "filter (\<lambda>k. \<not> is_array_index k) (js_own_keys ob) = filter (\<lambda>k. \<not> is_array_index k) (obj_keys ob)"
  by (simp add: js_own_keys_def filter_False)

subsection \<open>Lists\<close>

lemma filter_at_most_one:
  assumes "distinct xs" and "\<And>a b. a \<in> set xs \<Longrightarrow> b \<in> set xs \<Longrightarrow> P a \<Longrightarrow> P b \<Longrightarrow> a = b"
  shows "length (filter P xs) \<le> 1"
proof -
  have "card (set (filter P xs)) \<le> 1"
    using assms(2) by (auto simp: card_le_Suc0_iff_eq)
  moreover have "distinct (filter P xs)" using assms(1) by simp
  ultimately show ?thesis by (metis distinct_card)
qed

end
