(* ===== verification/Stores.thy ===== *)
theory Stores
  imports Prelude
begin

text \<open>
  The hook's state cells and the pure operations on them (\<open>src/lib/index.tsx\<close>,
  lines 125--189). Every \<open>useState\<close> cell is a field of \<open>form_state\<close>; the two
  object-valued cells (\<open>formValues\<close>, \<open>formErrors\<close>) also carry the identity of the
  object they hold, because React re-renders and re-runs effects when a cell's new value
  is not \<open>Object.is\<close> to its old one. A setter call does not write the cell: it queues
  an \<open>update\<close>, and React applies the queue in order at the next commit
  (\<open>apply_update\<close>). The store operations of the source (\<open>setForm\<close>,
  \<open>setError\<close>, \<open>setAllErrors\<close>, \<open>clearAllErrors\<close>, \<open>resetForm\<close>) are therefore
  functions returning the updates they queue. The derived values \<open>hasErrors\<close>,
  \<open>isDirty\<close>, \<open>isSemiDirty\<close> are recomputed from the cells at each render.
\<close>

section \<open>State cells and queued updates\<close>

record form_state =
  formValues :: "jsval obj"
  formValuesId :: nat
  formErrors :: "jsval obj"
  formErrorsId :: nat
  submitting :: bool
  fieldChanged :: "string option"
  nextObjId :: nat

text \<open>
  \<open>defaultFormErrors\<close>: a fold over the default keys that starts from the default values
  object itself and sets every key to \<open>null\<close> (lines 129--133).
\<close>

definition defaultFormErrors :: "jsval obj \<Rightarrow> jsval obj" where
  "defaultFormErrors dv = foldl (\<lambda>acc k. AList.update k JNull acc) dv (obj_keys dv)"

text \<open>
  A queued setter call. The functional updates of \<open>setForm\<close> and \<open>setError\<close>
  (\<open>s => ({...s, [k]: v})\<close>) build a new object; \<open>resetForm\<close> stores the memoised
  default objects back (identity 0, the identity of the objects the cells start with).
\<close>

datatype update =
    UpdFormState_Field string jsval
  | UpdFormState_Defaults
  | UpdFormErrors_Field string jsval
  | UpdFormErrors_Defaults
  | UpdSubmitting bool
  | UpdFieldChanged "string option"

fun apply_update :: "jsval obj \<Rightarrow> form_state \<Rightarrow> update \<Rightarrow> form_state" where
  "apply_update dv s (UpdFormState_Field k v) =
     s\<lparr>formValues := AList.update k v (formValues s), formValuesId := nextObjId s,
       nextObjId := Suc (nextObjId s)\<rparr>"
| "apply_update dv s UpdFormState_Defaults = s\<lparr>formValues := dv, formValuesId := 0\<rparr>"
| "apply_update dv s (UpdFormErrors_Field k v) =
     s\<lparr>formErrors := AList.update k v (formErrors s), formErrorsId := nextObjId s,
       nextObjId := Suc (nextObjId s)\<rparr>"
| "apply_update dv s UpdFormErrors_Defaults =
     s\<lparr>formErrors := defaultFormErrors dv, formErrorsId := 0\<rparr>"
| "apply_update dv s (UpdSubmitting b) = s\<lparr>submitting := b\<rparr>"
| "apply_update dv s (UpdFieldChanged f) = s\<lparr>fieldChanged := f\<rparr>"

definition apply_updates :: "jsval obj \<Rightarrow> form_state \<Rightarrow> update list \<Rightarrow> form_state" where
  "apply_updates dv = foldl (apply_update dv)"

text \<open>The cells on the first render (lines 127, 135--137).\<close>

definition init_form_state :: "jsval obj \<Rightarrow> form_state" where
  "init_form_state dv =
     \<lparr>formValues = dv, formValuesId = 0, formErrors = defaultFormErrors dv,
      formErrorsId = 0, submitting = False, fieldChanged = None, nextObjId = 1\<rparr>"

section \<open>Derived values\<close>

definition hasErrors :: "jsval obj \<Rightarrow> bool" where
  "hasErrors fe = list_ex (\<lambda>f. \<not> js_strict_eq (js_get fe f) JNull) (obj_keys fe)"

definition isDirty :: "jsval obj \<Rightarrow> jsval obj \<Rightarrow> bool" where
  "isDirty dv fv = list_all (\<lambda>f. \<not> js_strict_eq (js_get fv f) (js_get dv f)) (obj_keys fv)"

definition isSemiDirty :: "jsval obj \<Rightarrow> jsval obj \<Rightarrow> bool" where
  "isSemiDirty dv fv = list_ex (\<lambda>f. \<not> js_strict_eq (js_get fv f) (js_get dv f)) (obj_keys fv)"

section \<open>Store operations\<close>

definition setForm :: "string \<Rightarrow> jsval \<Rightarrow> update list" where
  "setForm k v = [UpdFormState_Field k v]"

definition setError :: "string \<Rightarrow> jsval \<Rightarrow> update list" where
  "setError k v = [UpdFormErrors_Field k v]"

text \<open>\<open>setAllErrors(errors)\<close>: returns at once on a falsy argument (\<open>None\<close>), otherwise
  one \<open>setError\<close> per key, in the key order of the argument.\<close>

definition setAllErrors :: "jsval obj option \<Rightarrow> update list" where
  "setAllErrors errs =
     (case errs of None \<Rightarrow> [] | Some m \<Rightarrow> concat (map (\<lambda>(k, v). setError k v) m))"

text \<open>\<open>clearAllErrors\<close> iterates over the keys of the \<^emph>\<open>rendered\<close> error object, the one
  its closure captured, and queues \<open>setError(k, null)\<close> for each.\<close>

definition clearAllErrors :: "jsval obj \<Rightarrow> update list" where
  "clearAllErrors rendered = concat (map (\<lambda>k. setError k JNull) (obj_keys rendered))"

definition shouldFormSubmitDefault :: "jsval obj \<Rightarrow> bool" where
  "shouldFormSubmitDefault rendered_errors = (\<not> hasErrors rendered_errors)"

definition resetForm :: "update list" where
  "resetForm = [UpdFormErrors_Defaults, UpdFormState_Defaults, UpdSubmitting False]"

section \<open>Lemmas\<close>

named_theorems store_simps "unfolding rules of the store operations"

declare setForm_def [store_simps] setError_def [store_simps] setAllErrors_def [store_simps]
  clearAllErrors_def [store_simps] resetForm_def [store_simps]

lemma apply_updates_Nil [simp]: "apply_updates dv s [] = s"
  by (simp add: apply_updates_def)

lemma apply_updates_Cons [simp]:
  "apply_updates dv s (u # us) = apply_updates dv (apply_update dv s u) us"
  by (simp add: apply_updates_def)

lemma apply_updates_append [simp]:
  "apply_updates dv s (us @ vs) = apply_updates dv (apply_updates dv s us) vs"
  by (simp add: apply_updates_def)

text \<open>Field-error updates only touch the error cell and the identity allocator.\<close>

lemma apply_error_updates_frame:
  assumes "\<forall>u \<in> set us. \<exists>k v. u = UpdFormErrors_Field k v"
  shows "formValues (apply_updates dv s us) = formValues s
    \<and> submitting (apply_updates dv s us) = submitting s
    \<and> fieldChanged (apply_updates dv s us) = fieldChanged s"
  using assms by (induction us arbitrary: s) auto

lemma errors_apply_error_updates:
  "formErrors (apply_updates dv s (concat (map (\<lambda>(k, v). setError k v) m))) =
     js_spread (formErrors s) m"
  by (induction m arbitrary: s) (auto simp: setError_def)

lemma set_error_updates_shape:
  "\<forall>u \<in> set (concat (map (\<lambda>(k, v). setError k v) m)). \<exists>k v. u = UpdFormErrors_Field k v"
  by (auto simp: setError_def)

lemma map_upd_notin:
  "k \<notin> set (obj_keys acc) \<Longrightarrow> map (\<lambda>(k', w). (k', if k' = k then v else w)) acc = acc"
  by (induction acc) auto

lemma update_as_map:
  "wf_obj acc \<Longrightarrow> k \<in> set (obj_keys acc) \<Longrightarrow>
   AList.update k v acc = map (\<lambda>(k', w). (k', if k' = k then v else w)) acc"
proof (induction acc)
  case Nil
  then show ?case by simp
next
  case (Cons p acc)
  then show ?case
    by (cases p) (auto simp: map_upd_notin)
qed

lemma keys_fold_null:
  "set ks \<subseteq> set (obj_keys acc) \<Longrightarrow>
   obj_keys (foldl (\<lambda>acc k. AList.update k JNull acc) acc ks) = obj_keys acc"
proof (induction ks arbitrary: acc)
  case Nil
  then show ?case by simp
next
  case (Cons k ks)
  have keys: "obj_keys (AList.update k JNull acc) = obj_keys acc"
    using Cons.prems by (simp add: AList.update_keys)
  with Cons.prems have "set ks \<subseteq> set (obj_keys (AList.update k JNull acc))"
    by simp
  from Cons.IH [OF this] keys show ?case by simp
qed

lemma defaultFormErrors_fold:
  "wf_obj acc \<Longrightarrow> set ks \<subseteq> set (obj_keys acc) \<Longrightarrow>
   foldl (\<lambda>acc k. AList.update k JNull acc) acc ks =
   map (\<lambda>(k, v). (k, if k \<in> set ks then JNull else v)) acc"
proof (induction ks arbitrary: acc)
  case Nil
  then show ?case by (simp add: case_prod_unfold)
next
  case (Cons k ks)
  from Cons.prems have "set ks \<subseteq> set (obj_keys (AList.update k JNull acc))"
    by simp
  with Cons.prems Cons.IH [of "AList.update k JNull acc"] show ?case
    by (simp add: update_as_map case_prod_unfold comp_def)
qed

lemma obj_keys_defaultFormErrors [simp]: "obj_keys (defaultFormErrors dv) = obj_keys dv"
  by (simp add: defaultFormErrors_def keys_fold_null)

lemma wf_obj_defaultFormErrors [simp]: "wf_obj (defaultFormErrors dv) = wf_obj dv"
  by simp

lemma js_get_map_null:
  "js_get (map (\<lambda>(k, v). (k, JNull)) dv) k = (if k \<in> set (obj_keys dv) then JNull else JUndefined)"
proof (induction dv)
  case Nil
  then show ?case by simp
next
  case (Cons p dv)
  then show ?case by (cases p) (auto simp: js_get_notin)
qed

lemma errors_apply_null_updates:
  "formErrors (apply_updates dv s (concat (map (\<lambda>k. setError k JNull) ks))) =
     foldl (\<lambda>acc k. AList.update k JNull acc) (formErrors s) ks"
  by (induction ks arbitrary: s) (auto simp: setError_def)

lemma js_get_fold_null:
  "js_get (foldl (\<lambda>acc k. AList.update k JNull acc) a ks) k =
     (if k \<in> set ks then JNull else js_get a k)"
  using js_get_fold_update [of "\<lambda>_. JNull"] by simp

lemma keys_fold_null_set:
  "set (obj_keys (foldl (\<lambda>acc k. AList.update k JNull acc) a ks)) = set (obj_keys a) \<union> set ks"
  by (induction ks arbitrary: a) (auto simp: AList.dom_update)

lemma hasErrors_iff:
  "hasErrors fe \<longleftrightarrow> (\<exists>k \<in> set (obj_keys fe). js_get fe k \<noteq> JNull)"
  by (simp add: hasErrors_def list_ex_iff)

lemma hasErrors_update_null:
  "\<not> hasErrors fe \<Longrightarrow> \<not> hasErrors (AList.update k JNull fe)"
proof -
  assume ne: "\<not> hasErrors fe"
  have keys: "set (obj_keys (AList.update k JNull fe)) \<subseteq> insert k (set (obj_keys fe))"
    by (metis AList.dom_update set_map subset_refl insert_is_Un)
  show ?thesis
    unfolding hasErrors_iff
  proof
    assume "\<exists>k' \<in> set (obj_keys (AList.update k JNull fe)). js_get (AList.update k JNull fe) k' \<noteq> JNull"
    then obtain k' where k': "k' \<in> set (obj_keys (AList.update k JNull fe))" "k' \<noteq> k"
      "js_get fe k' \<noteq> JNull"
      by (auto split: if_splits)
    with keys have "k' \<in> set (obj_keys fe)" by blast
    with k'(3) ne show False by (auto simp: hasErrors_iff)
  qed
qed

section \<open>Properties of the stores\<close>

text \<open>C31. \<open>defaultFormErrors\<close>, the fold that starts from the default values object and
  overwrites every key with \<open>null\<close>, is the object with the same keys in the same order
  and every value \<open>null\<close>.\<close>

theorem defaultFormErrors_eq:
  "wf_obj dv \<Longrightarrow> defaultFormErrors dv = map (\<lambda>(k, v). (k, JNull)) dv"
  by (simp add: defaultFormErrors_def defaultFormErrors_fold case_prod_unfold)

text \<open>C28. Round trip of \<open>setAllErrors\<close>: after the queued updates are applied, every key of
  the argument holds the argument's value and every other key keeps its previous error;
  the value store is untouched.\<close>

theorem setAllErrors_roundtrip:
  assumes "wf_obj m"
  shows "js_get (formErrors (apply_updates dv s (setAllErrors (Some m)))) k =
           (if k \<in> set (obj_keys m) then js_get m k else js_get (formErrors s) k)
     \<and> formValues (apply_updates dv s (setAllErrors (Some m))) = formValues s"
proof -
  have "map_of (rev m) = map_of m" using assms by (rule map_of_rev_distinct)
  then show ?thesis
    using apply_error_updates_frame [OF set_error_updates_shape]
    by (simp add: setAllErrors_def errors_apply_error_updates js_get_spread case_map_of_js_get)
qed

text \<open>C30. \<open>clearAllErrors\<close> queues \<open>setError(k, null)\<close> for every key of the error object
  its closure rendered; when the pending error object has no other keys, no error remains
  afterwards.\<close>

theorem clearAllErrors_clears:
  assumes "set (obj_keys (formErrors s)) \<subseteq> set (obj_keys rendered)"
  shows "\<not> hasErrors (formErrors (apply_updates dv s (clearAllErrors rendered)))"
proof -
  have "formErrors (apply_updates dv s (clearAllErrors rendered)) =
          foldl (\<lambda>acc k. AList.update k JNull acc) (formErrors s) (obj_keys rendered)"
    unfolding clearAllErrors_def by (rule errors_apply_null_updates)
  with assms keys_fold_null_set [of "formErrors s" "obj_keys rendered"] show ?thesis
    by (auto simp: hasErrors_iff js_get_fold_null)
qed

text \<open>C29. \<open>resetForm\<close> restores the default values object and the default error object,
  sets \<open>submitting\<close> to false, and is idempotent: resetting twice is resetting once.\<close>

theorem resetForm_idempotent:
  "apply_updates dv (apply_updates dv s resetForm) resetForm = apply_updates dv s resetForm
   \<and> formValues (apply_updates dv s resetForm) = dv
   \<and> formErrors (apply_updates dv s resetForm) = defaultFormErrors dv
   \<and> \<not> submitting (apply_updates dv s resetForm)"
  by (simp add: resetForm_def)

text \<open>C32. The dirty flags quantify over the keys of the current values: with no field the
  form is vacuously fully dirty and not partially dirty; with at least one field, full
  dirtiness implies partial dirtiness; a form holding its defaults is not dirty at all.\<close>

theorem dirty_laws:
  "isDirty dv [] \<and> \<not> isSemiDirty dv []
   \<and> (fv \<noteq> [] \<longrightarrow> isDirty dv fv \<longrightarrow> isSemiDirty dv fv)
   \<and> \<not> isSemiDirty dv dv"
  by (cases fv) (auto simp: isDirty_def isSemiDirty_def list_ex_iff)

subsection \<open>Witnesses\<close>

theorem defaultFormErrors_eq_witness:
  "wf_obj [(''a'', JNum 1), (''b'', JNum 2)]
   \<and> defaultFormErrors [(''a'', JNum 1), (''b'', JNum 2)] = [(''a'', JNull), (''b'', JNull)]"
  using defaultFormErrors_eq [of "[(''a'', JNum 1), (''b'', JNum 2)]"] by simp

theorem setAllErrors_roundtrip_witness:
  "wf_obj [(''email'', JStr ''required'')]
   \<and> js_get (formErrors (apply_updates [(''email'', JStr '''')]
        (init_form_state [(''email'', JStr '''')])
        (setAllErrors (Some [(''email'', JStr ''required'')])))) ''email'' = JStr ''required''"
  using setAllErrors_roundtrip [of "[(''email'', JStr ''required'')]" "[(''email'', JStr '''')]"
      "init_form_state [(''email'', JStr '''')]" "''email''"]
  by simp

theorem clearAllErrors_clears_witness:
  "set (obj_keys (formErrors ((init_form_state [(''a'', JNum 1)])\<lparr>formErrors := [(''a'', JStr ''bad'')]\<rparr>)))
     \<subseteq> set (obj_keys [(''a'', JStr ''bad'')])
   \<and> \<not> hasErrors (formErrors (apply_updates [(''a'', JNum 1)]
        ((init_form_state [(''a'', JNum 1)])\<lparr>formErrors := [(''a'', JStr ''bad'')]\<rparr>)
        (clearAllErrors [(''a'', JStr ''bad'')])))"
  using clearAllErrors_clears [of "(init_form_state [(''a'', JNum 1)])\<lparr>formErrors := [(''a'', JStr ''bad'')]\<rparr>"
      "[(''a'', JStr ''bad'')]" "[(''a'', JNum 1)]"]
  by simp

theorem dirty_laws_witness:
  "[(''a'', JNum 9), (''b'', JNum 8)] \<noteq> []
   \<and> isDirty [(''a'', JNum 1), (''b'', JNum 2)] [(''a'', JNum 9), (''b'', JNum 8)]
   \<and> isSemiDirty [(''a'', JNum 1), (''b'', JNum 2)] [(''a'', JNum 9), (''b'', JNum 8)]"
  using dirty_laws [of "[(''a'', JNum 1), (''b'', JNum 2)]" "[(''a'', JNum 9), (''b'', JNum 8)]"]
  by (simp add: isDirty_def)

end
