(* ===== verification/Bindings.thy ===== *)
theory Bindings
  imports Stores
begin

text \<open>
  What one render of \<open>useForm\<close> hands out (\<open>src/lib/index.tsx\<close>, lines 203--328):
  the \<open>formSelf\<close> snapshot that every hook receives (its data fields; the action
  callbacks it also holds are the events of the runtime theory), and the field binding
  descriptors of \<open>registerField\<close>, \<open>registerCheckBoxField\<close> and
  \<open>registerRadioField\<close>. A descriptor's \<open>onChange\<close>/\<open>onBlur\<close> closures are named
  by a \<open>handler\<close> value; what invoking one does is defined in the runtime theory, and
  the value it extracts from its raw argument (\<open>val?.target?.value ?? val\<close>) here.
  The radio descriptors of one field are mutually exclusive (\<open>radio_exclusive\<close>).
\<close>

record form_self =
  self_isDirty :: bool
  self_isSemiDirty :: bool
  self_submitting :: bool
  self_hasErrors :: bool
  self_formErrors :: "jsval obj"
  self_formValues :: "jsval obj"

text \<open>The snapshot a render computes from the cells (lines 139--149, 313--328).\<close>

definition form_self_of :: "jsval obj \<Rightarrow> form_state \<Rightarrow> form_self" where
  "form_self_of dv s =
     \<lparr>self_isDirty = isDirty dv (formValues s),
      self_isSemiDirty = isSemiDirty dv (formValues s),
      self_submitting = submitting s,
      self_hasErrors = hasErrors (formErrors s),
      self_formErrors = formErrors s,
      self_formValues = formValues s\<rparr>"

datatype handler =
    OnChangeText string
  | OnChangeCheckBox string
  | OnChangeRadio string jsval
  | OnBlurField string

datatype binding_prop = PropValue jsval | PropChecked jsval

record binding =
  b_name :: string
  b_prop :: binding_prop
  b_onChange :: handler
  b_onBlur :: handler

text \<open>\<open>val?.target?.value ?? val\<close> and \<open>val?.target?.checked ?? val\<close>.\<close>

definition target_value :: "jsval \<Rightarrow> jsval" where
  "target_value raw = js_coalesce (js_prop (js_prop raw ''target'') ''value'') raw"

definition target_checked :: "jsval \<Rightarrow> jsval" where
  "target_checked raw = js_coalesce (js_prop (js_prop raw ''target'') ''checked'') raw"

definition registerFieldDefault :: "jsval obj \<Rightarrow> string \<Rightarrow> binding" where
  "registerFieldDefault fv k =
     \<lparr>b_name = k, b_prop = PropValue (js_get fv k),
      b_onChange = OnChangeText k, b_onBlur = OnBlurField k\<rparr>"

definition registerCheckBoxDefault :: "jsval obj \<Rightarrow> string \<Rightarrow> binding" where
  "registerCheckBoxDefault fv k =
     \<lparr>b_name = k, b_prop = PropChecked (js_get fv k),
      b_onChange = OnChangeCheckBox k, b_onBlur = OnBlurField k\<rparr>"

definition registerRadioDefault :: "jsval obj \<Rightarrow> string \<Rightarrow> jsval \<Rightarrow> binding" where
  "registerRadioDefault fv k rv =
     \<lparr>b_name = k, b_prop = PropChecked (JBool (js_strict_eq rv (js_get fv k))),
      b_onChange = OnChangeRadio k rv, b_onBlur = OnBlurField k\<rparr>"

text \<open>The public factories return the default descriptor unchanged (the
  \<open>fieldWillRegister\<close> override is commented out in the source, lines 249--291).\<close>

definition registerField :: "form_self \<Rightarrow> string \<Rightarrow> binding" where
  "registerField r k = registerFieldDefault (self_formValues r) k"

definition registerCheckBoxField :: "form_self \<Rightarrow> string \<Rightarrow> binding" where
  "registerCheckBoxField r k = registerCheckBoxDefault (self_formValues r) k"

definition registerRadioField :: "form_self \<Rightarrow> string \<Rightarrow> jsval \<Rightarrow> binding" where
  "registerRadioField r k rv = registerRadioDefault (self_formValues r) k rv"

text \<open>The value a handler forwards: text and blur read \<open>target.value\<close>, the check box
  reads \<open>target.checked\<close>, a radio option forwards its own value and ignores the
  event (lines 205--245).\<close>

fun handler_value :: "handler \<Rightarrow> jsval \<Rightarrow> jsval" where
  "handler_value (OnChangeText k) raw = target_value raw"
| "handler_value (OnChangeCheckBox k) raw = target_checked raw"
| "handler_value (OnChangeRadio k rv) raw = rv"
| "handler_value (OnBlurField k) raw = target_value raw"

fun handler_field :: "handler \<Rightarrow> string" where
  "handler_field (OnChangeText k) = k"
| "handler_field (OnChangeCheckBox k) = k"
| "handler_field (OnChangeRadio k rv) = k"
| "handler_field (OnBlurField k) = k"

subsection \<open>Lemmas\<close>

lemma self_of_simps [simp]:
  "self_formValues (form_self_of dv s) = formValues s"
  "self_formErrors (form_self_of dv s) = formErrors s"
  "self_submitting (form_self_of dv s) = submitting s"
  "self_hasErrors (form_self_of dv s) = hasErrors (formErrors s)"
  "self_isDirty (form_self_of dv s) = isDirty dv (formValues s)"
  "self_isSemiDirty (form_self_of dv s) = isSemiDirty dv (formValues s)"
  by (simp_all add: form_self_of_def)

text \<open>An event object is a JavaScript object with a \<open>target\<close> object.\<close>

definition event_obj :: "nat \<Rightarrow> nat \<Rightarrow> (string \<times> jsval) list \<Rightarrow> jsval" where
  "event_obj i j target = JObj i [(''target'', JObj j target)]"

lemma target_value_event:
  "target_value (event_obj i j target) =
     js_coalesce (js_get target ''value'') (event_obj i j target)"
  by (simp add: target_value_def event_obj_def)

lemma target_checked_event:
  "target_checked (event_obj i j target) =
     js_coalesce (js_get target ''checked'') (event_obj i j target)"
  by (simp add: target_checked_def event_obj_def)

lemma target_value_prim:
  "(\<forall>i ps. v \<noteq> JObj i ps) \<Longrightarrow> target_value v = v"
  by (cases v) (simp_all add: target_value_def js_coalesce_def js_nullish_def)

lemma target_checked_prim:
  "(\<forall>i ps. v \<noteq> JObj i ps) \<Longrightarrow> target_checked v = v"
  by (cases v) (simp_all add: target_checked_def js_coalesce_def js_nullish_def)

text \<open>C15. Radio descriptors of one field are mutually exclusive: among option values that
  are pairwise distinct under \<open>===\<close>, at most one descriptor is checked, whatever the
  values object.\<close>

theorem radio_exclusive:
  assumes opts: "distinct opts" and neq: "\<forall>a \<in> set opts. \<forall>b \<in> set opts. a \<noteq> b \<longrightarrow> \<not> js_strict_eq a b"
  shows "length (filter (\<lambda>rv. b_prop (registerRadioField r k rv) = PropChecked (JBool True)) opts) \<le> 1"
proof (rule filter_at_most_one [OF opts])
  fix a b
  assume "a \<in> set opts" "b \<in> set opts"
    and "b_prop (registerRadioField r k a) = PropChecked (JBool True)"
    and "b_prop (registerRadioField r k b) = PropChecked (JBool True)"
  then show "a = b"
    using neq js_strict_eq_sym js_strict_eq_trans
    by (simp add: registerRadioField_def registerRadioDefault_def) metis
qed

theorem radio_exclusive_witness:
  "length (filter (\<lambda>rv. b_prop (registerRadioField (form_self_of [] (init_form_state [(''c'', JStr ''red'')])) ''c'' rv)
                       = PropChecked (JBool True)) [JStr ''red'', JStr ''green'', JStr ''blue'']) \<le> 1
   \<and> b_prop (registerRadioField (form_self_of [] (init_form_state [(''c'', JStr ''red'')])) ''c'' (JStr ''red''))
       = PropChecked (JBool True)"
proof -
  have "length (filter (\<lambda>rv. b_prop (registerRadioField (form_self_of [] (init_form_state [(''c'', JStr ''red'')])) ''c'' rv)
                       = PropChecked (JBool True)) [JStr ''red'', JStr ''green'', JStr ''blue'']) \<le> 1"
    by (rule radio_exclusive) simp_all
  then show ?thesis by (simp add: registerRadioField_def registerRadioDefault_def init_form_state_def)
qed

end
