(* ===== verification/Hook.thy ===== *)
theory Hook
  imports Bindings
begin

text \<open>
  The body of \<open>useForm\<close> (\<open>src/lib/index.tsx\<close>, lines 107--412) as operations on an
  explicit world. The caller's lifecycle hooks are modelled by whether they are
  configured and, for the two whose results the hook uses, by their behaviour:
  \<open>shouldFormSubmit\<close> yields a boolean or rejects, \<open>formDidSubmit\<close> resolves,
  rejects or throws synchronously. Every call of a hook is recorded, with its argument,
  in the world's list of \<open>calls\<close>, which is the observable behaviour of the hook.

  The world holds the cells (\<open>form_state\<close>), the snapshot of the latest render
  (whose closures the UI invokes), the snapshot of the first render (whose closures
  \<open>setFormField\<close>, \<open>setAllFields\<close> and the mount effect's cleanup keep, because they
  are created by \<open>useCallback(..., [])\<close> or \<open>useEffect(..., [])\<close>), the ref
  \<open>formSelfRef\<close>, the dependency values each effect last ran with, the queue of
  pending setter calls, and the continuations of \<open>_onSubmit\<close> suspended at an
  \<open>await\<close>.
\<close>

datatype submit_result = Resolves | Rejects jsval | Throws jsval

record config =
  defaultValues :: "jsval obj"
  has_formWillMount :: bool
  has_fieldDidRegister :: bool
  has_formDidMount :: bool
  has_formWillUnmount :: bool
  has_fieldOnChange :: bool
  has_fieldDidChange :: bool
  has_fieldOnBlur :: bool
  has_formOnSubmit :: bool
  shouldFormSubmit :: "(form_self \<Rightarrow> jsval + bool) option"
  formDidSubmit :: "(form_self \<Rightarrow> submit_result) option"
  has_submitDidCatch :: bool
  has_formDidFinally :: bool

datatype hook_call =
    FormWillMount form_self
  | FieldDidRegister string binding jsval form_self
  | FormDidMount "form_self option"
  | FormWillUnmount form_self
  | FieldOnChange form_self string jsval
  | FieldDidChange "form_self option" string jsval
  | FieldOnBlur form_self string jsval
  | FormOnSubmit form_self
  | ShouldFormSubmit form_self
  | FormDidSubmit form_self
  | SubmitDidCatch form_self jsval
  | ConsoleError jsval
  | FormDidFinally form_self

text \<open>A suspended \<open>_onSubmit\<close>: after \<open>await shouldFormSubmit(...)\<close> with the gate's
  value, or after \<open>await formDidSubmit(...)\<close> with the rejection, if any. Both keep the
  snapshot of the render whose effect started them.\<close>

datatype task = AwaitGate form_self bool | AwaitSubmit form_self "jsval option"

record world =
  cells :: form_state
  rendered :: form_self
  first_render :: form_self
  selfRef :: "form_self option"
  dep_fieldChanged :: "string option"
  dep_changedValue :: jsval
  dep_submitting :: bool
  dep_formErrorsId :: nat
  queue :: "update list"
  tasks :: "task list"
  unhandled :: "jsval list"
  mounted :: bool
  calls :: "hook_call list"

text \<open>The error a call of the missing \<open>formDidSubmit\<close> throws.\<close>

definition type_error :: jsval where
  "type_error = JStr ''TypeError: formDidSubmit is not a function''"

definition call_if :: "bool \<Rightarrow> hook_call \<Rightarrow> world \<Rightarrow> world" where
  "call_if b c w = (if b then w\<lparr>calls := calls w @ [c]\<rparr> else w)"

definition enqueue :: "update list \<Rightarrow> world \<Rightarrow> world" where
  "enqueue us w = w\<lparr>queue := queue w @ us\<rparr>"

section \<open>Change pipeline\<close>

text \<open>\<open>onFieldChangingDefault\<close> (lines 299--303) and \<open>_changeValue\<close> (lines 345--351):
  the override \<open>fieldOnChange\<close> takes over, receiving the closure's snapshot; otherwise
  the value is written, the field's error cleared and the field marked as changed.\<close>

definition onFieldChangingDefault :: "string \<Rightarrow> jsval \<Rightarrow> update list" where
  "onFieldChangingDefault k v = setForm k v @ setError k JNull @ [UpdFieldChanged (Some k)]"

definition changeValue :: "config \<Rightarrow> form_self \<Rightarrow> string \<Rightarrow> jsval \<Rightarrow> world \<Rightarrow> world" where
  "changeValue cfg r k v w =
     (if has_fieldOnChange cfg then w\<lparr>calls := calls w @ [FieldOnChange r k v]\<rparr>
      else enqueue (onFieldChangingDefault k v) w)"

text \<open>\<open>setAllFields(args = formValues)\<close> (lines 305--309): one \<open>_changeValue\<close> per key,
  in the enumeration order of \<open>for ... in\<close>; the default argument is the values object
  of the first render.\<close>

definition setAllFields :: "config \<Rightarrow> form_self \<Rightarrow> jsval obj option \<Rightarrow> world \<Rightarrow> world" where
  "setAllFields cfg r args w =
     (let m = (case args of None \<Rightarrow> self_formValues r | Some m \<Rightarrow> m)
      in foldl (\<lambda>w k. changeValue cfg r k (js_get m k) w) w (js_own_keys m))"

text \<open>A binding's handler (lines 203--246): a change handler forwards the extracted value
  to \<open>_changeValue\<close>, the blur handler reports it to \<open>fieldOnBlur\<close>.\<close>

fun run_handler :: "config \<Rightarrow> form_self \<Rightarrow> handler \<Rightarrow> jsval \<Rightarrow> world \<Rightarrow> world" where
  "run_handler cfg r (OnBlurField k) raw w =
     call_if (has_fieldOnBlur cfg) (FieldOnBlur r k (target_value raw)) w"
| "run_handler cfg r h raw w = changeValue cfg r (handler_field h) (handler_value h raw) w"

section \<open>Submission\<close>

text \<open>\<open>handleSubmit\<close> (lines 192--201).\<close>

definition handleSubmit :: "config \<Rightarrow> form_self \<Rightarrow> world \<Rightarrow> world" where
  "handleSubmit cfg r w =
     (let w1 = enqueue [UpdSubmitting True] w in
      if has_formOnSubmit cfg then w1\<lparr>calls := calls w1 @ [FormOnSubmit (r\<lparr>self_submitting := True\<rparr>)]\<rparr>
      else enqueue (clearAllErrors (self_formErrors r)) w1)"

text \<open>The \<open>catch\<close> and \<open>finally\<close> blocks of \<open>_onSubmit\<close> (lines 387--397).\<close>

definition submit_catch_finally :: "config \<Rightarrow> form_self \<Rightarrow> jsval option \<Rightarrow> world \<Rightarrow> world" where
  "submit_catch_finally cfg r caught w =
     (let w1 = (case caught of
                  None \<Rightarrow> w
                | Some e \<Rightarrow> if has_submitDidCatch cfg
                            then w\<lparr>calls := calls w @ [SubmitDidCatch r e]\<rparr>
                            else w\<lparr>calls := calls w @ [ConsoleError e]\<rparr>)
      in call_if (has_formDidFinally cfg) (FormDidFinally r) (enqueue [UpdSubmitting False] w1))"

text \<open>\<open>_onSubmit\<close> after the gate (lines 379--393): a rejected gate stops with
  \<open>setSubmitting(false)\<close>; otherwise \<open>formDidSubmit\<close> is called, and its outcome is
  awaited, or caught at once when the call throws (as calling a missing hook does).\<close>

definition submit_after_gate :: "config \<Rightarrow> form_self \<Rightarrow> bool \<Rightarrow> world \<Rightarrow> world" where
  "submit_after_gate cfg r ok w =
     (if \<not> ok then enqueue [UpdSubmitting False] w
      else case formDidSubmit cfg of
        None \<Rightarrow> submit_catch_finally cfg r (Some type_error) w
      | Some f \<Rightarrow>
          (let w1 = w\<lparr>calls := calls w @ [FormDidSubmit r]\<rparr> in
           case f r of
             Resolves \<Rightarrow> w1\<lparr>tasks := tasks w1 @ [AwaitSubmit r None]\<rparr>
           | Rejects e \<Rightarrow> w1\<lparr>tasks := tasks w1 @ [AwaitSubmit r (Some e)]\<rparr>
           | Throws e \<Rightarrow> submit_catch_finally cfg r (Some e) w1))"

text \<open>\<open>_onSubmit\<close> up to its first suspension (lines 374--377): a configured gate is
  called and awaited (a rejection rejects the promise of \<open>_onSubmit\<close>, which nobody
  handles); the default gate \<open>!hasErrors\<close> of the closure is evaluated at once.\<close>

definition onSubmit :: "config \<Rightarrow> form_self \<Rightarrow> world \<Rightarrow> world" where
  "onSubmit cfg r w =
     (case shouldFormSubmit cfg of
        Some g \<Rightarrow>
          (let w1 = w\<lparr>calls := calls w @ [ShouldFormSubmit r]\<rparr> in
           case g r of
             Inl e \<Rightarrow> w1\<lparr>unhandled := unhandled w1 @ [e]\<rparr>
           | Inr ok \<Rightarrow> w1\<lparr>tasks := tasks w1 @ [AwaitGate r ok]\<rparr>)
      | None \<Rightarrow> submit_after_gate cfg r (shouldFormSubmitDefault (self_formErrors r)) w)"

text \<open>Resuming a suspended \<open>_onSubmit\<close>.\<close>

fun run_task :: "config \<Rightarrow> task \<Rightarrow> world \<Rightarrow> world" where
  "run_task cfg (AwaitGate r ok) w = submit_after_gate cfg r ok w"
| "run_task cfg (AwaitSubmit r caught) w = submit_catch_finally cfg r caught w"

section \<open>Render and effects\<close>

text \<open>A render recomputes the snapshot and, since \<open>formWillMount?.(formPrivateSelf)\<close>
  sits in the body of the hook (line 335), calls \<open>formWillMount\<close> every time.\<close>

definition render :: "config \<Rightarrow> world \<Rightarrow> world" where
  "render cfg w =
     (let r = form_self_of (defaultValues cfg) (cells w) in
      call_if (has_formWillMount cfg) (FormWillMount r) (w\<lparr>rendered := r\<rparr>))"

text \<open>\<open>formValues[fieldChanged]\<close>: JavaScript turns the key \<open>null\<close> into the string
  \<open>"null"\<close>.\<close>

definition changed_key :: "string option \<Rightarrow> string" where
  "changed_key f = (case f of None \<Rightarrow> ''null'' | Some k \<Rightarrow> k)"

definition changed_value :: "form_state \<Rightarrow> jsval" where
  "changed_value s = js_get (formValues s) (changed_key (fieldChanged s))"

text \<open>The body of the did-change effect (lines 338--343): when \<open>fieldChanged\<close> is
  truthy, \<open>fieldDidChange\<close> gets the changed field, its current value and the snapshot in
  \<open>formSelfRef.current\<close>, and the marker is cleared.\<close>

definition didChange_body :: "config \<Rightarrow> world \<Rightarrow> world" where
  "didChange_body cfg w =
     (case fieldChanged (cells w) of
        Some k \<Rightarrow>
          if k \<noteq> '''' then
            enqueue [UpdFieldChanged None]
              (call_if (has_fieldDidChange cfg)
                 (FieldDidChange (selfRef w) k (js_get (formValues (cells w)) k)) w)
          else w
      | None \<Rightarrow> w)"

definition didChange_effect :: "config \<Rightarrow> world \<Rightarrow> world" where
  "didChange_effect cfg w =
     (if dep_fieldChanged w = fieldChanged (cells w)
         \<and> js_strict_eq (dep_changedValue w) (changed_value (cells w))
      then w
      else didChange_body cfg
             (w\<lparr>dep_fieldChanged := fieldChanged (cells w),
                dep_changedValue := changed_value (cells w)\<rparr>))"

text \<open>The submission effect (lines 400--404): whenever \<open>submitting\<close> or the identity of
  the error object changes, and \<open>submitting\<close> is true, \<open>_onSubmit\<close> starts with the
  current render's closure.\<close>

definition submit_body :: "config \<Rightarrow> world \<Rightarrow> world" where
  "submit_body cfg w = (if submitting (cells w) then onSubmit cfg (rendered w) w else w)"

definition submit_effect :: "config \<Rightarrow> world \<Rightarrow> world" where
  "submit_effect cfg w =
     (if dep_submitting w = submitting (cells w) \<and> dep_formErrorsId w = formErrorsId (cells w)
      then w
      else submit_body cfg
             (w\<lparr>dep_submitting := submitting (cells w),
                dep_formErrorsId := formErrorsId (cells w)\<rparr>))"

definition run_effects :: "config \<Rightarrow> world \<Rightarrow> world" where
  "run_effects cfg w = submit_effect cfg (didChange_effect cfg w)"

section \<open>Mount and unmount\<close>

text \<open>The mount effect (lines 356--366): the ref receives the first render's snapshot,
  \<open>fieldDidRegister\<close> is called for each key of the values, in the order of
  \<open>for ... in\<close>, with a fresh default binding, and then \<open>formDidMount\<close> with the
  ref.\<close>

definition register_sweep :: "config \<Rightarrow> form_self \<Rightarrow> hook_call list" where
  "register_sweep cfg r =
     (if has_fieldDidRegister cfg
      then map (\<lambda>k. FieldDidRegister k (registerField r k) (js_get (self_formValues r) k) r)
             (js_own_keys (self_formValues r))
      else [])"

definition mount_effect :: "config \<Rightarrow> world \<Rightarrow> world" where
  "mount_effect cfg w =
     (let w1 = w\<lparr>selfRef := Some (rendered w), calls := calls w @ register_sweep cfg (rendered w)\<rparr>
      in call_if (has_formDidMount cfg) (FormDidMount (selfRef w1)) w1)"

text \<open>The first render and its effects, which all run once on mount, in the order they
  are declared.\<close>

definition mount :: "config \<Rightarrow> world" where
  "mount cfg =
     (let s = init_form_state (defaultValues cfg);
          r = form_self_of (defaultValues cfg) s;
          w0 = \<lparr>cells = s, rendered = r, first_render = r, selfRef = None,
                dep_fieldChanged = fieldChanged s, dep_changedValue = changed_value s,
                dep_submitting = submitting s, dep_formErrorsId = formErrorsId s,
                queue = [], tasks = [], unhandled = [], mounted = True, calls = []\<rparr>;
          w1 = call_if (has_formWillMount cfg) (FormWillMount r) w0
      in submit_body cfg (mount_effect cfg (didChange_body cfg w1)))"

text \<open>The cleanup of the mount effect (line 369) keeps the first render's snapshot.\<close>

definition unmount :: "config \<Rightarrow> world \<Rightarrow> world" where
  "unmount cfg w =
     call_if (has_formWillUnmount cfg) (FormWillUnmount (first_render w)) (w\<lparr>mounted := False\<rparr>)"

section \<open>Configurations\<close>

text \<open>\<open>useForm({defaultValues})\<close>: the destructuring of the arguments (lines 108--123)
  leaves every hook undefined. Configurations with hooks are record updates of it.\<close>

definition plain_config :: "jsval obj \<Rightarrow> config" where
  "plain_config dv =
     \<lparr>defaultValues = dv, has_formWillMount = False, has_fieldDidRegister = False,
      has_formDidMount = False, has_formWillUnmount = False, has_fieldOnChange = False,
      has_fieldDidChange = False, has_fieldOnBlur = False, has_formOnSubmit = False,
      shouldFormSubmit = None, formDidSubmit = None, has_submitDidCatch = False,
      has_formDidFinally = False\<rparr>"

end
