(* ===== verification/Runtime.thy ===== *)
theory Runtime
  imports Hook
begin

text \<open>
  How React runs the hook (the part of the system the source relies on but does not
  contain). A UI event invokes a closure of the latest render (or of the first render,
  for the callbacks memoised with empty dependencies); its setter calls are queued and
  applied together at the commit. When a cell changed (by \<open>Object.is\<close>), the
  component renders again and the effects whose dependencies changed run, in declaration
  order; their setter calls form the next batch. A suspended \<open>_onSubmit\<close> resumes as a
  separate step, at a time the environment chooses (when the awaited promise settles),
  and its setter calls are committed the same way.

  \<open>settle\<close> is this commit loop with fuel. The loop always stops after at most two
  renders (\<open>settle_fuel_enough\<close>): the effects only ever queue \<open>setFieldChanged(null)\<close>
  and \<open>setSubmitting(false)\<close>, and these re-trigger no effect that queues anything.
\<close>

definition cells_differ :: "form_state \<Rightarrow> form_state \<Rightarrow> bool" where
  "cells_differ s s' \<longleftrightarrow>
     formValuesId s \<noteq> formValuesId s' \<or> formErrorsId s \<noteq> formErrorsId s'
     \<or> submitting s \<noteq> submitting s' \<or> fieldChanged s \<noteq> fieldChanged s'"

fun settle :: "nat \<Rightarrow> config \<Rightarrow> world \<Rightarrow> world option" where
  "settle 0 cfg w = None"
| "settle (Suc n) cfg w =
     (if queue w = [] then Some w
      else if \<not> mounted w then Some (w\<lparr>queue := []\<rparr>)
      else
        (let s' = apply_updates (defaultValues cfg) (cells w) (queue w);
             w1 = w\<lparr>cells := s', queue := []\<rparr>
         in if cells_differ (cells w) s' then settle n cfg (run_effects cfg (render cfg w1))
            else Some w1))"

definition settle_fuel :: nat where
  "settle_fuel = 3"

text \<open>The public surface of the hook, as the UI calls it (lines 406--412).\<close>

datatype ui_event =
    Handle handler jsval
  | Submit
  | SetFormFieldEv string jsval
  | SetAllFieldsEv "jsval obj option"
  | SetErrorEv string jsval
  | SetAllErrorsEv "jsval obj option"
  | ClearAllErrorsEv
  | ResetFormEv
  | UnmountEv

fun ui_handler :: "config \<Rightarrow> ui_event \<Rightarrow> world \<Rightarrow> world" where
  "ui_handler cfg (Handle h raw) w = run_handler cfg (rendered w) h raw w"
| "ui_handler cfg Submit w = handleSubmit cfg (rendered w) w"
| "ui_handler cfg (SetFormFieldEv k v) w = changeValue cfg (first_render w) k v w"
| "ui_handler cfg (SetAllFieldsEv a) w = setAllFields cfg (first_render w) a w"
| "ui_handler cfg (SetErrorEv k v) w = enqueue (setError k v) w"
| "ui_handler cfg (SetAllErrorsEv a) w = enqueue (setAllErrors a) w"
| "ui_handler cfg ClearAllErrorsEv w = enqueue (clearAllErrors (self_formErrors (rendered w))) w"
| "ui_handler cfg ResetFormEv w = enqueue resetForm w"
| "ui_handler cfg UnmountEv w = unmount cfg w"

datatype action = Ui ui_event | Resume nat

fun step :: "config \<Rightarrow> action \<Rightarrow> world \<Rightarrow> world option" where
  "step cfg (Ui e) w = (if mounted w then settle settle_fuel cfg (ui_handler cfg e w) else None)"
| "step cfg (Resume i) w =
     (if i < length (tasks w)
      then settle settle_fuel cfg
             (run_task cfg (tasks w ! i) (w\<lparr>tasks := take i (tasks w) @ drop (Suc i) (tasks w)\<rparr>))
      else None)"

fun run :: "config \<Rightarrow> action list \<Rightarrow> world \<Rightarrow> world option" where
  "run cfg [] w = Some w"
| "run cfg (a # as) w = (case step cfg a w of None \<Rightarrow> None | Some w' \<Rightarrow> run cfg as w')"

inductive reachable :: "config \<Rightarrow> world \<Rightarrow> bool" for cfg where
  init: "reachable cfg (mount cfg)"
| step: "reachable cfg w \<Longrightarrow> step cfg a w = Some w' \<Longrightarrow> reachable cfg w'"

definition enabled :: "action \<Rightarrow> world \<Rightarrow> bool" where
  "enabled a w = (case a of Ui e \<Rightarrow> mounted w | Resume i \<Rightarrow> i < length (tasks w))"

section \<open>The effects queue only two kinds of update\<close>

definition effect_update :: "update \<Rightarrow> bool" where
  "effect_update u \<longleftrightarrow> u = UpdFieldChanged None \<or> u = UpdSubmitting False"

named_theorems world_simps "unfolding rules of the world operations"

definition keeps_frame :: "world \<Rightarrow> world \<Rightarrow> bool" where
  "keeps_frame w w' \<longleftrightarrow>
     cells w' = cells w \<and> rendered w' = rendered w \<and> first_render w' = first_render w
     \<and> selfRef w' = selfRef w \<and> mounted w' = mounted w
     \<and> dep_fieldChanged w' = dep_fieldChanged w \<and> dep_changedValue w' = dep_changedValue w
     \<and> dep_submitting w' = dep_submitting w \<and> dep_formErrorsId w' = dep_formErrorsId w"

definition deps_synced :: "world \<Rightarrow> bool" where
  "deps_synced w \<longleftrightarrow>
     dep_fieldChanged w = fieldChanged (cells w)
     \<and> js_strict_eq (dep_changedValue w) (changed_value (cells w))
     \<and> dep_submitting w = submitting (cells w) \<and> dep_formErrorsId w = formErrorsId (cells w)"

declare call_if_def [world_simps] enqueue_def [world_simps] submit_catch_finally_def [world_simps]
  submit_after_gate_def [world_simps] onSubmit_def [world_simps] submit_body_def [world_simps]
  submit_effect_def [world_simps] didChange_body_def [world_simps]
  didChange_effect_def [world_simps] run_effects_def [world_simps] render_def [world_simps]

lemma call_if_fields [simp]:
  "queue (call_if b c w) = queue w" "cells (call_if b c w) = cells w"
  "tasks (call_if b c w) = tasks w" "mounted (call_if b c w) = mounted w"
  "dep_fieldChanged (call_if b c w) = dep_fieldChanged w"
  "dep_changedValue (call_if b c w) = dep_changedValue w"
  "dep_submitting (call_if b c w) = dep_submitting w"
  "dep_formErrorsId (call_if b c w) = dep_formErrorsId w"
  "rendered (call_if b c w) = rendered w" "first_render (call_if b c w) = first_render w"
  "selfRef (call_if b c w) = selfRef w" "unhandled (call_if b c w) = unhandled w"
  by (simp_all add: call_if_def)

text \<open>A property kept by every \<open>_changeValue\<close> is kept by \<open>setAllFields\<close>, whatever
  the enumeration order of its argument.\<close>

lemma setAllFields_induct:
  assumes "P w" and "\<And>w k v. P w \<Longrightarrow> P (changeValue cfg r k v w)"
  shows "P (setAllFields cfg r a w)"
proof -
  have "P (foldl (\<lambda>w k. changeValue cfg r k (f k) w) w ks)" for f ks
    using assms(1) by (induction ks arbitrary: w) (simp_all add: assms(2))
  then show ?thesis by (simp add: setAllFields_def Let_def)
qed

lemma queue_submit_catch_finally:
  "queue (submit_catch_finally cfg r c w) = queue w @ [UpdSubmitting False]"
  by (simp add: submit_catch_finally_def enqueue_def Let_def split: option.split)

lemma cells_submit_catch_finally [simp]:
  "cells (submit_catch_finally cfg r c w) = cells w"
  "mounted (submit_catch_finally cfg r c w) = mounted w"
  by (simp_all add: submit_catch_finally_def enqueue_def Let_def split: option.split)

lemma queue_submit_after_gate:
  "queue (submit_after_gate cfg r ok w) \<in> {queue w, queue w @ [UpdSubmitting False]}"
  by (auto simp: submit_after_gate_def enqueue_def queue_submit_catch_finally Let_def
      split: option.split submit_result.split)

lemma cells_submit_after_gate [simp]:
  "cells (submit_after_gate cfg r ok w) = cells w"
  "mounted (submit_after_gate cfg r ok w) = mounted w"
  by (auto simp: submit_after_gate_def enqueue_def Let_def split: option.split submit_result.split)

lemma queue_onSubmit:
  "queue (onSubmit cfg r w) \<in> {queue w, queue w @ [UpdSubmitting False]}"
  using queue_submit_after_gate [of cfg r _ w]
  by (auto simp: onSubmit_def Let_def split: option.split sum.split)

lemma cells_onSubmit [simp]: "cells (onSubmit cfg r w) = cells w"
  by (auto simp: onSubmit_def Let_def split: option.split sum.split)

lemma queue_submit_effect:
  "queue (submit_effect cfg w) \<in> {queue w, queue w @ [UpdSubmitting False]}"
proof -
  let ?w' = "w\<lparr>dep_submitting := submitting (cells w), dep_formErrorsId := formErrorsId (cells w)\<rparr>"
  have "queue (onSubmit cfg (rendered w) ?w') \<in> {queue w, queue w @ [UpdSubmitting False]}"
    using queue_onSubmit [of cfg "rendered w" ?w'] by simp
  then show ?thesis by (auto simp: submit_effect_def submit_body_def)
qed

lemma queue_didChange_effect:
  "queue (didChange_effect cfg w) \<in> {queue w, queue w @ [UpdFieldChanged None]}"
  by (auto simp: didChange_effect_def didChange_body_def enqueue_def split: option.split)

lemma cells_didChange_effect [simp]: "cells (didChange_effect cfg w) = cells w"
  by (auto simp: didChange_effect_def didChange_body_def enqueue_def split: option.split)

lemma cells_submit_effect [simp]: "cells (submit_effect cfg w) = cells w"
  by (auto simp: submit_effect_def submit_body_def)

lemma cells_render [simp]: "cells (render cfg w) = cells w" "queue (render cfg w) = queue w"
  by (simp_all add: render_def Let_def)

lemma queue_run_effects:
  "queue w = [] \<Longrightarrow> list_all effect_update (queue (run_effects cfg w))"
  using queue_didChange_effect [of cfg w] queue_submit_effect [of cfg "didChange_effect cfg w"]
  by (auto simp: run_effects_def effect_update_def)

section \<open>Frames and synchronised dependencies\<close>

lemma keeps_frame_catch_finally: "keeps_frame w (submit_catch_finally cfg r x w)"
  by (simp add: keeps_frame_def submit_catch_finally_def call_if_def enqueue_def Let_def
      split: option.split)

lemma keeps_frame_after_gate: "keeps_frame w (submit_after_gate cfg r ok w)"
  using keeps_frame_catch_finally [of "w\<lparr>calls := calls w @ [FormDidSubmit r]\<rparr>" cfg r]
    keeps_frame_catch_finally [of w cfg r]
  by (auto simp: keeps_frame_def submit_after_gate_def enqueue_def Let_def
      split: option.split submit_result.split)

lemma keeps_frame_onSubmit: "keeps_frame w (onSubmit cfg r w)"
  using keeps_frame_after_gate [of w cfg r]
  by (auto simp: keeps_frame_def onSubmit_def Let_def split: option.split sum.split)

lemma keeps_frame_didChange_body: "keeps_frame w (didChange_body cfg w)"
  by (simp add: keeps_frame_def didChange_body_def call_if_def enqueue_def split: option.split)

lemma didChange_effect_synced:
  "dep_fieldChanged (didChange_effect cfg w) = fieldChanged (cells w)
   \<and> js_strict_eq (dep_changedValue (didChange_effect cfg w)) (changed_value (cells w))
   \<and> dep_submitting (didChange_effect cfg w) = dep_submitting w
   \<and> dep_formErrorsId (didChange_effect cfg w) = dep_formErrorsId w
   \<and> cells (didChange_effect cfg w) = cells w"
proof (cases "dep_fieldChanged w = fieldChanged (cells w)
         \<and> js_strict_eq (dep_changedValue w) (changed_value (cells w))")
  case True
  then show ?thesis by (simp add: didChange_effect_def)
next
  case False
  let ?w = "w\<lparr>dep_fieldChanged := fieldChanged (cells w), dep_changedValue := changed_value (cells w)\<rparr>"
  have "keeps_frame ?w (didChange_body cfg ?w)" by (rule keeps_frame_didChange_body)
  with False show ?thesis by (simp add: didChange_effect_def keeps_frame_def)
qed

lemma submit_effect_synced:
  "dep_submitting (submit_effect cfg w) = submitting (cells w)
   \<and> dep_formErrorsId (submit_effect cfg w) = formErrorsId (cells w)
   \<and> dep_fieldChanged (submit_effect cfg w) = dep_fieldChanged w
   \<and> dep_changedValue (submit_effect cfg w) = dep_changedValue w
   \<and> cells (submit_effect cfg w) = cells w"
proof (cases "dep_submitting w = submitting (cells w) \<and> dep_formErrorsId w = formErrorsId (cells w)")
  case True
  then show ?thesis by (simp add: submit_effect_def)
next
  case False
  let ?w = "w\<lparr>dep_submitting := submitting (cells w), dep_formErrorsId := formErrorsId (cells w)\<rparr>"
  have "keeps_frame ?w (onSubmit cfg (rendered ?w) ?w)" by (rule keeps_frame_onSubmit)
  with False show ?thesis
    by (cases "submitting (cells w)") (simp_all add: submit_effect_def submit_body_def keeps_frame_def)
qed

lemma run_effects_synced: "deps_synced (run_effects cfg w)"
  using didChange_effect_synced [of cfg w] submit_effect_synced [of cfg "didChange_effect cfg w"]
  by (simp add: deps_synced_def run_effects_def)

lemma apply_effect_updates:
  assumes "list_all effect_update q"
  shows "formValues (apply_updates dv s q) = formValues s
    \<and> formErrorsId (apply_updates dv s q) = formErrorsId s
    \<and> (fieldChanged (apply_updates dv s q) = fieldChanged s \<or> fieldChanged (apply_updates dv s q) = None)
    \<and> (submitting (apply_updates dv s q) = submitting s \<or> \<not> submitting (apply_updates dv s q))"
  using assms
proof (induction q arbitrary: s)
  case Nil
  then show ?case by simp
next
  case (Cons u q)
  from Cons.prems have "u = UpdFieldChanged None \<or> u = UpdSubmitting False"
    by (simp add: effect_update_def)
  with Cons.IH [of "apply_update dv s u"] Cons.prems show ?case by auto
qed

lemma render_deps [simp]:
  "dep_fieldChanged (render cfg w) = dep_fieldChanged w"
  "dep_changedValue (render cfg w) = dep_changedValue w"
  "dep_submitting (render cfg w) = dep_submitting w"
  "dep_formErrorsId (render cfg w) = dep_formErrorsId w"
  "mounted (render cfg w) = mounted w"
  by (simp_all add: render_def Let_def)

lemma didChange_effect_quiet:
  assumes "queue w = []"
    and "fieldChanged (cells w) = None
         \<or> (dep_fieldChanged w = fieldChanged (cells w)
            \<and> js_strict_eq (dep_changedValue w) (changed_value (cells w)))"
  shows "queue (didChange_effect cfg w) = []"
proof (cases "dep_fieldChanged w = fieldChanged (cells w)
         \<and> js_strict_eq (dep_changedValue w) (changed_value (cells w))")
  case True
  with assms(1) show ?thesis by (simp add: didChange_effect_def)
next
  case False
  with assms have "fieldChanged (cells w) = None" by blast
  with False assms(1) show ?thesis by (simp add: didChange_effect_def didChange_body_def)
qed

lemma submit_effect_quiet:
  assumes "queue w = []"
    and "\<not> submitting (cells w)
         \<or> (dep_submitting w = submitting (cells w) \<and> dep_formErrorsId w = formErrorsId (cells w))"
  shows "queue (submit_effect cfg w) = []"
proof (cases "dep_submitting w = submitting (cells w) \<and> dep_formErrorsId w = formErrorsId (cells w)")
  case True
  with assms(1) show ?thesis by (simp add: submit_effect_def)
next
  case False
  with assms have "\<not> submitting (cells w)" by blast
  with False assms(1) show ?thesis by (simp add: submit_effect_def submit_body_def)
qed

lemma settle_round2:
  assumes sync: "deps_synced w" and eff: "list_all effect_update (queue w)"
  shows "settle (Suc (Suc n)) cfg w \<noteq> None"
proof (cases "queue w = [] \<or> \<not> mounted w")
  case True
  then show ?thesis by auto
next
  case False
  define s' where "s' = apply_updates (defaultValues cfg) (cells w) (queue w)"
  define w1 where "w1 = w\<lparr>cells := s', queue := []\<rparr>"
  have s': "formValues s' = formValues (cells w)" "formErrorsId s' = formErrorsId (cells w)"
    "fieldChanged s' = fieldChanged (cells w) \<or> fieldChanged s' = None"
    "submitting s' = submitting (cells w) \<or> \<not> submitting s'"
    using apply_effect_updates [OF eff, of "defaultValues cfg" "cells w"] by (simp_all add: s'_def)
  have cv: "fieldChanged s' = fieldChanged (cells w) \<Longrightarrow> changed_value s' = changed_value (cells w)"
    using s'(1) by (simp add: changed_value_def)
  let ?w2 = "render cfg w1"
  have q1: "queue (didChange_effect cfg ?w2) = []"
    using sync s'(3) cv by (intro didChange_effect_quiet) (auto simp: w1_def deps_synced_def)
  have d1: "dep_submitting (didChange_effect cfg ?w2) = submitting (cells w)"
    "dep_formErrorsId (didChange_effect cfg ?w2) = formErrorsId (cells w)"
    "cells (didChange_effect cfg ?w2) = s'"
    using didChange_effect_synced [of cfg ?w2] sync by (simp_all add: w1_def deps_synced_def)
  have "queue (run_effects cfg ?w2) = []"
    unfolding run_effects_def using q1 d1 s'(2,4) by (intro submit_effect_quiet) auto
  then have "settle (Suc n) cfg (run_effects cfg ?w2) \<noteq> None" by simp
  with False show ?thesis by (simp add: Let_def s'_def [symmetric] w1_def [symmetric])
qed

section \<open>Termination of the commit loop\<close>

lemma settle_within_fuel: "settle settle_fuel cfg w \<noteq> None"
proof (cases "queue w = [] \<or> \<not> mounted w")
  case True
  then show ?thesis by (auto simp: settle_fuel_def numeral_3_eq_3)
next
  case False
  define s' where "s' = apply_updates (defaultValues cfg) (cells w) (queue w)"
  define w1 where "w1 = w\<lparr>cells := s', queue := []\<rparr>"
  have "deps_synced (run_effects cfg (render cfg w1))" by (rule run_effects_synced)
  moreover have "list_all effect_update (queue (run_effects cfg (render cfg w1)))"
    by (rule queue_run_effects) (simp add: w1_def)
  ultimately have "settle (Suc (Suc 0)) cfg (run_effects cfg (render cfg w1)) \<noteq> None"
    by (rule settle_round2)
  with False show ?thesis
    by (simp add: settle_fuel_def numeral_3_eq_3 Let_def s'_def [symmetric] w1_def [symmetric])
qed

text \<open>C26. The commit loop of every step stops within its fuel: after the handler's batch,
  the effects queue at most \<open>setFieldChanged(null)\<close> and \<open>setSubmitting(false)\<close>, and
  the render these cause queues nothing, so \<open>settle\<close> never runs out.\<close>

theorem settle_fuel_enough: "settle settle_fuel cfg w \<noteq> None"
  by (rule settle_within_fuel)

text \<open>A scheduler action succeeds exactly when it is enabled: a UI event while the
  component is mounted, or the resumption of a pending continuation.\<close>

lemma step_total: "step cfg a w \<noteq> None \<longleftrightarrow> enabled a w"
  using settle_within_fuel by (cases a) (auto simp: enabled_def)

text \<open>Every world an action list reaches from a reachable world is reachable.\<close>

lemma reachable_run: "run cfg as w = Some w' \<Longrightarrow> reachable cfg w \<Longrightarrow> reachable cfg w'"
proof (induction as arbitrary: w)
  case Nil
  then show ?case by simp
next
  case (Cons a as)
  then obtain w1 where "step cfg a w = Some w1" "run cfg as w1 = Some w'"
    by (auto split: option.splits)
  with Cons.IH Cons.prems(2) reachable.step show ?case by blast
qed

end
