(* ===== verification/Settled.thy ===== *)
theory Settled
  imports Runtime
begin

text \<open>
  The invariant of the runtime: every reachable world is \<open>settled\<close>. Its parts are
  what the commit loop of \<open>Runtime\<close> establishes after every step: an empty queue,
  effect dependencies in sync with the cells, object identities that are either fresh
  (below the allocator) or the identity 0 of the memoised default objects, and a serviced
  change marker. The object-identity lemmas show that an unchanged identity means an
  unchanged object, which is what lets React's bail-out (no cell changed by
  \<open>Object.is\<close>) keep the effect dependencies in sync.
\<close>

definition fresh_ids :: "form_state \<Rightarrow> bool" where
  "fresh_ids s \<longleftrightarrow> formValuesId s < nextObjId s \<and> formErrorsId s < nextObjId s"

definition default_ids :: "jsval obj \<Rightarrow> form_state \<Rightarrow> bool" where
  "default_ids dv s \<longleftrightarrow>
     (formValuesId s = 0 \<longrightarrow> formValues s = dv)
     \<and> (formErrorsId s = 0 \<longrightarrow> formErrors s = defaultFormErrors dv)"

definition marker_ok :: "form_state \<Rightarrow> bool" where
  "marker_ok s \<longleftrightarrow> fieldChanged s = None \<or> fieldChanged s = Some ''''"

definition settled :: "config \<Rightarrow> world \<Rightarrow> bool" where
  "settled cfg w \<longleftrightarrow>
     queue w = [] \<and> deps_synced w \<and> fresh_ids (cells w)
     \<and> default_ids (defaultValues cfg) (cells w) \<and> marker_ok (cells w)
     \<and> rendered w = form_self_of (defaultValues cfg) (cells w)"

definition keeps_state :: "world \<Rightarrow> world \<Rightarrow> bool" where
  "keeps_state w w' \<longleftrightarrow>
     cells w' = cells w \<and> dep_fieldChanged w' = dep_fieldChanged w
     \<and> dep_changedValue w' = dep_changedValue w \<and> dep_submitting w' = dep_submitting w
     \<and> dep_formErrorsId w' = dep_formErrorsId w
     \<and> selfRef w' = selfRef w \<and> first_render w' = first_render w
     \<and> rendered w' = rendered w"

lemma apply_update_next_mono: "nextObjId s \<le> nextObjId (apply_update dv s u)"
  by (cases u) auto

lemma apply_updates_next_mono: "nextObjId s \<le> nextObjId (apply_updates dv s q)"
  by (induction q arbitrary: s) (auto intro: order_trans [OF apply_update_next_mono])

lemma apply_update_values_id:
  "(formValuesId (apply_update dv s u) = formValuesId s \<and> formValues (apply_update dv s u) = formValues s)
   \<or> formValuesId (apply_update dv s u) = 0 \<or> formValuesId (apply_update dv s u) = nextObjId s"
  by (cases u) auto

lemma apply_update_errors_id:
  "(formErrorsId (apply_update dv s u) = formErrorsId s \<and> formErrors (apply_update dv s u) = formErrors s)
   \<or> formErrorsId (apply_update dv s u) = 0 \<or> formErrorsId (apply_update dv s u) = nextObjId s"
  by (cases u) auto

lemma apply_updates_values_id:
  "formValuesId (apply_updates dv s q) = 0
   \<or> nextObjId s \<le> formValuesId (apply_updates dv s q)
   \<or> (formValuesId (apply_updates dv s q) = formValuesId s
      \<and> formValues (apply_updates dv s q) = formValues s)"
proof (induction q arbitrary: s)
  case Nil
  then show ?case by simp
next
  case (Cons u q)
  have mono: "nextObjId s \<le> nextObjId (apply_update dv s u)" by (rule apply_update_next_mono)
  from Cons.IH [of "apply_update dv s u"] apply_update_values_id [of dv s u] mono show ?case
    by auto
qed

lemma apply_updates_errors_id:
  "formErrorsId (apply_updates dv s q) = 0
   \<or> nextObjId s \<le> formErrorsId (apply_updates dv s q)
   \<or> (formErrorsId (apply_updates dv s q) = formErrorsId s
      \<and> formErrors (apply_updates dv s q) = formErrors s)"
proof (induction q arbitrary: s)
  case Nil
  then show ?case by simp
next
  case (Cons u q)
  have mono: "nextObjId s \<le> nextObjId (apply_update dv s u)" by (rule apply_update_next_mono)
  from Cons.IH [of "apply_update dv s u"] apply_update_errors_id [of dv s u] mono show ?case
    by auto
qed

lemma apply_updates_fresh: "fresh_ids s \<Longrightarrow> fresh_ids (apply_updates dv s q)"
proof (induction q arbitrary: s)
  case Nil
  then show ?case by simp
next
  case (Cons u q)
  have "fresh_ids (apply_update dv s u)"
    using Cons.prems by (cases u) (auto simp: fresh_ids_def)
  then show ?case using Cons.IH by simp
qed

lemma apply_updates_default_ids:
  "0 < nextObjId s \<Longrightarrow> default_ids dv s \<Longrightarrow> default_ids dv (apply_updates dv s q)"
proof (induction q arbitrary: s)
  case Nil
  then show ?case by simp
next
  case (Cons u q)
  have "default_ids dv (apply_update dv s u)"
    using Cons.prems by (cases u) (auto simp: default_ids_def)
  moreover have "0 < nextObjId (apply_update dv s u)"
    using Cons.prems apply_update_next_mono [of s dv u] by linarith
  ultimately show ?case using Cons.IH by simp
qed

text \<open>An unchanged identity means an unchanged object.\<close>

lemma same_ids_same_objects:
  assumes "fresh_ids s" "default_ids dv s"
  shows "formValuesId (apply_updates dv s q) = formValuesId s \<Longrightarrow> formValues (apply_updates dv s q) = formValues s"
    and "formErrorsId (apply_updates dv s q) = formErrorsId s \<Longrightarrow> formErrors (apply_updates dv s q) = formErrors s"
proof -
  have "0 < nextObjId s" using assms(1) by (simp add: fresh_ids_def)
  then have "default_ids dv (apply_updates dv s q)" using assms(2) by (rule apply_updates_default_ids)
  then show "formValuesId (apply_updates dv s q) = formValuesId s \<Longrightarrow> formValues (apply_updates dv s q) = formValues s"
    and "formErrorsId (apply_updates dv s q) = formErrorsId s \<Longrightarrow> formErrors (apply_updates dv s q) = formErrors s"
    using assms apply_updates_values_id [of dv s q] apply_updates_errors_id [of dv s q]
    by (auto simp: fresh_ids_def default_ids_def)
qed

lemma apply_effect_updates_marker:
  "list_all effect_update q \<Longrightarrow> UpdFieldChanged None \<in> set q \<Longrightarrow>
   fieldChanged (apply_updates dv s q) = None"
proof (induction q arbitrary: s)
  case Nil
  then show ?case by simp
next
  case (Cons u q)
  show ?case
  proof (cases "UpdFieldChanged None \<in> set q")
    case True
    with Cons show ?thesis by simp
  next
    case False
    with Cons.prems have u: "u = UpdFieldChanged None" by auto
    have "list_all effect_update q" using Cons.prems by simp
    from apply_effect_updates [OF this, of dv "apply_update dv s u"] u show ?thesis by auto
  qed
qed

lemma apply_effect_updates_errors:
  "list_all effect_update q \<Longrightarrow> formErrors (apply_updates dv s q) = formErrors s"
  by (induction q arbitrary: s) (auto simp: effect_update_def)

lemma form_self_of_cong:
  "formValues s' = formValues s \<Longrightarrow> formErrors s' = formErrors s \<Longrightarrow> submitting s' = submitting s
   \<Longrightarrow> form_self_of dv s' = form_self_of dv s"
  by (simp add: form_self_of_def)

lemma rendered_effects [simp]:
  "rendered (didChange_effect cfg w) = rendered w"
  "rendered (submit_effect cfg w) = rendered w"
  "rendered (run_effects cfg w) = rendered w"
  "rendered (render cfg w) = form_self_of (defaultValues cfg) (cells w)"
proof -
  have "\<And>w'. rendered (didChange_body cfg w') = rendered w'"
    using keeps_frame_didChange_body by (simp add: keeps_frame_def)
  then show a: "rendered (didChange_effect cfg w) = rendered w" by (simp add: didChange_effect_def)
  have "\<And>w' r. rendered (onSubmit cfg r w') = rendered w'"
    using keeps_frame_onSubmit by (simp add: keeps_frame_def)
  then show b: "\<And>w. rendered (submit_effect cfg w) = rendered w"
    by (simp add: submit_effect_def submit_body_def)
  show "rendered (run_effects cfg w) = rendered w" by (simp add: run_effects_def a b)
  show "rendered (render cfg w) = form_self_of (defaultValues cfg) (cells w)"
    by (simp add: render_def Let_def)
qed

lemma settle_round2_settled:
  assumes sync: "deps_synced w" and eff: "list_all effect_update (queue w)" and mnt: "mounted w"
    and ids: "fresh_ids (cells w)" "default_ids (defaultValues cfg) (cells w)"
    and pend: "\<And>k. fieldChanged (cells w) = Some k \<Longrightarrow> k \<noteq> '''' \<Longrightarrow> UpdFieldChanged None \<in> set (queue w)"
    and rend: "rendered w = form_self_of (defaultValues cfg) (cells w)"
    and res: "settle (Suc (Suc n)) cfg w = Some w'"
  shows "settled cfg w'"
proof (cases "queue w = []")
  case True
  with res have "w' = w" by simp
  have "marker_ok (cells w)"
    using True pend by (cases "fieldChanged (cells w)") (auto simp: marker_ok_def)
  with True sync ids rend \<open>w' = w\<close> show ?thesis by (simp add: settled_def)
next
  case False
  define s' where "s' = apply_updates (defaultValues cfg) (cells w) (queue w)"
  define w1 where "w1 = w\<lparr>cells := s', queue := []\<rparr>"
  have s': "formValues s' = formValues (cells w)" "formErrorsId s' = formErrorsId (cells w)"
    "fieldChanged s' = fieldChanged (cells w) \<or> fieldChanged s' = None"
    "submitting s' = submitting (cells w) \<or> \<not> submitting s'"
    using apply_effect_updates [OF eff, of "defaultValues cfg" "cells w"] by (simp_all add: s'_def)
  have ids': "fresh_ids s'" "default_ids (defaultValues cfg) s'"
    using ids apply_updates_fresh apply_updates_default_ids
    by (auto simp: s'_def fresh_ids_def)
  have mk: "marker_ok s'"
  proof (cases "fieldChanged (cells w)")
    case None
    with s'(3) show ?thesis by (auto simp: marker_ok_def)
  next
    case (Some k)
    show ?thesis
    proof (cases "k = ''''")
      case True
      with Some s'(3) show ?thesis by (auto simp: marker_ok_def)
    next
      case False
      with Some pend have "UpdFieldChanged None \<in> set (queue w)" by blast
      with eff show ?thesis
        by (simp add: s'_def marker_ok_def apply_effect_updates_marker)
    qed
  qed
  have cv: "fieldChanged s' = fieldChanged (cells w) \<Longrightarrow> changed_value s' = changed_value (cells w)"
    using s'(1) by (simp add: changed_value_def)
  show ?thesis
  proof (cases "cells_differ (cells w) s'")
    case False
    with res \<open>queue w \<noteq> []\<close> mnt have "w' = w1" by (simp add: Let_def s'_def [symmetric] w1_def)
    moreover have "deps_synced w1"
      using sync False cv s'(2) by (auto simp: deps_synced_def w1_def cells_differ_def)
    moreover have "form_self_of (defaultValues cfg) s' = form_self_of (defaultValues cfg) (cells w)"
      using False s'(1) apply_effect_updates_errors [OF eff]
      by (intro form_self_of_cong) (simp_all add: s'_def cells_differ_def)
    ultimately show ?thesis using ids' mk rend by (simp add: settled_def w1_def)
  next
    case True
    let ?w2 = "render cfg w1"
    have q1: "queue (didChange_effect cfg ?w2) = []"
      using sync s'(3) cv by (intro didChange_effect_quiet) (auto simp: w1_def deps_synced_def)
    have d1: "dep_submitting (didChange_effect cfg ?w2) = submitting (cells w)"
      "dep_formErrorsId (didChange_effect cfg ?w2) = formErrorsId (cells w)"
      "cells (didChange_effect cfg ?w2) = s'"
      using didChange_effect_synced [of cfg ?w2] sync by (simp_all add: w1_def deps_synced_def)
    have q: "queue (run_effects cfg ?w2) = []"
      unfolding run_effects_def using q1 d1 s'(2,4) by (intro submit_effect_quiet) auto
    with True res \<open>queue w \<noteq> []\<close> mnt have "w' = run_effects cfg ?w2"
      by (simp add: Let_def s'_def [symmetric] w1_def [symmetric])
    moreover have "cells (run_effects cfg ?w2) = s'" by (simp add: run_effects_def w1_def)
    ultimately show ?thesis
      using q run_effects_synced [of cfg ?w2] ids' mk by (simp add: settled_def w1_def)
  qed
qed

lemma mounted_didChange_effect [simp]: "mounted (didChange_effect cfg w) = mounted w"
proof -
  have "\<And>w'. mounted (didChange_body cfg w') = mounted w'"
    using keeps_frame_didChange_body by (simp add: keeps_frame_def)
  then show ?thesis by (simp add: didChange_effect_def)
qed

lemma mounted_submit_effect [simp]: "mounted (submit_effect cfg w) = mounted w"
proof -
  have "\<And>w' r. mounted (onSubmit cfg r w') = mounted w'"
    using keeps_frame_onSubmit by (simp add: keeps_frame_def)
  then show ?thesis by (simp add: submit_effect_def submit_body_def)
qed

lemma mounted_run_effects [simp]: "mounted (run_effects cfg w) = mounted w"
  by (simp add: run_effects_def)

lemma didChange_effect_fires:
  assumes "dep_fieldChanged w \<noteq> fieldChanged (cells w)" "fieldChanged (cells w) = Some k" "k \<noteq> ''''"
  shows "queue (didChange_effect cfg w) = queue w @ [UpdFieldChanged None]"
  using assms by (simp add: didChange_effect_def didChange_body_def enqueue_def)

lemma submit_effect_queue_prefix: "\<exists>us. queue (submit_effect cfg w) = queue w @ us"
  using queue_submit_effect [of cfg w] by auto

lemma settle_settled:
  assumes sync: "deps_synced w" and ids: "fresh_ids (cells w)" "default_ids (defaultValues cfg) (cells w)"
    and mk: "marker_ok (cells w)" and rend: "rendered w = form_self_of (defaultValues cfg) (cells w)"
    and res: "settle settle_fuel cfg w = Some w'"
  shows "settled cfg w'"
proof (cases "queue w = [] \<or> \<not> mounted w")
  case True
  with res have "queue w' = [] \<and> cells w' = cells w \<and> dep_fieldChanged w' = dep_fieldChanged w
      \<and> dep_changedValue w' = dep_changedValue w \<and> dep_submitting w' = dep_submitting w
      \<and> dep_formErrorsId w' = dep_formErrorsId w \<and> rendered w' = rendered w"
    by (cases "queue w = []") (auto simp: settle_fuel_def numeral_3_eq_3)
  with sync ids mk rend show ?thesis by (simp add: settled_def deps_synced_def)
next
  case False
  define s' where "s' = apply_updates (defaultValues cfg) (cells w) (queue w)"
  define w1 where "w1 = w\<lparr>cells := s', queue := []\<rparr>"
  have ids': "fresh_ids s'" "default_ids (defaultValues cfg) s'"
    using ids apply_updates_fresh apply_updates_default_ids
    by (auto simp: s'_def fresh_ids_def)
  show ?thesis
  proof (cases "cells_differ (cells w) s'")
    case False
    with res \<open>\<not> (queue w = [] \<or> \<not> mounted w)\<close> have "w' = w1"
      by (simp add: settle_fuel_def numeral_3_eq_3 Let_def s'_def [symmetric] w1_def)
    moreover have "formValues s' = formValues (cells w)"
      using False same_ids_same_objects(1) [OF ids] by (simp add: s'_def cells_differ_def)
    then have "deps_synced w1"
      using sync False by (simp add: deps_synced_def w1_def cells_differ_def changed_value_def)
    moreover have "marker_ok s'" using mk False by (simp add: marker_ok_def cells_differ_def)
    moreover have "form_self_of (defaultValues cfg) s' = form_self_of (defaultValues cfg) (cells w)"
      using False same_ids_same_objects [OF ids, of "queue w"] \<open>formValues s' = formValues (cells w)\<close>
      by (intro form_self_of_cong) (simp_all add: s'_def cells_differ_def)
    ultimately show ?thesis using ids' rend by (simp add: settled_def w1_def)
  next
    case True
    let ?w2 = "run_effects cfg (render cfg w1)"
    have res2: "settle (Suc (Suc 0)) cfg ?w2 = Some w'"
      using res True \<open>\<not> (queue w = [] \<or> \<not> mounted w)\<close>
      by (simp add: settle_fuel_def numeral_3_eq_3 Let_def s'_def [symmetric] w1_def [symmetric])
    have cells2: "cells ?w2 = s'" by (simp add: run_effects_def w1_def)
    have pend: "UpdFieldChanged None \<in> set (queue ?w2)"
      if "fieldChanged (cells ?w2) = Some k" "k \<noteq> ''''" for k
    proof -
      have "dep_fieldChanged (render cfg w1) \<noteq> fieldChanged (cells (render cfg w1))"
        using sync mk that cells2 by (auto simp: deps_synced_def marker_ok_def w1_def)
      then have "queue (didChange_effect cfg (render cfg w1)) = [UpdFieldChanged None]"
        using that cells2 didChange_effect_fires [of "render cfg w1" k cfg] by (simp add: w1_def)
      then show ?thesis
        using submit_effect_queue_prefix [of cfg "didChange_effect cfg (render cfg w1)"]
        by (auto simp: run_effects_def)
    qed
    show ?thesis
    proof (rule settle_round2_settled [OF _ _ _ _ _ _ _ res2])
      show "deps_synced ?w2" by (rule run_effects_synced)
      show "list_all effect_update (queue ?w2)" by (rule queue_run_effects) (simp add: w1_def)
      show "mounted ?w2" using False by (simp add: w1_def)
      show "fresh_ids (cells ?w2)" "default_ids (defaultValues cfg) (cells ?w2)"
        using ids' cells2 by simp_all
      show "rendered ?w2 = form_self_of (defaultValues cfg) (cells ?w2)"
        using cells2 by (simp add: w1_def)
    qed (rule pend)
  qed
qed

lemma keeps_state_trans: "keeps_state w w' \<Longrightarrow> keeps_state w' w'' \<Longrightarrow> keeps_state w w''"
  by (simp add: keeps_state_def)

lemma keeps_frame_state: "keeps_frame w w' \<Longrightarrow> keeps_state w w'"
  by (simp add: keeps_frame_def keeps_state_def)

lemma keeps_state_changeValue: "keeps_state w (changeValue cfg r k v w)"
  by (simp add: keeps_state_def changeValue_def enqueue_def)

lemma keeps_state_setAllFields: "keeps_state w (setAllFields cfg r a w)"
proof (rule setAllFields_induct [where P = "keeps_state w"])
  show "keeps_state w w" by (simp add: keeps_state_def)
next
  fix x k v
  assume "keeps_state w x"
  with keeps_state_changeValue keeps_state_trans show "keeps_state w (changeValue cfg r k v x)"
    by blast
qed

lemma keeps_state_ui_handler: "keeps_state w (ui_handler cfg e w)"
proof (cases e)
  case (Handle h raw)
  then show ?thesis
    using keeps_state_changeValue
    by (cases h) (simp_all add: keeps_state_def call_if_def)
next
  case Submit
  then show ?thesis by (simp add: keeps_state_def handleSubmit_def enqueue_def Let_def)
next
  case (SetAllFieldsEv a)
  then show ?thesis by (simp add: keeps_state_setAllFields)
next
  case UnmountEv
  then show ?thesis by (simp add: keeps_state_def unmount_def call_if_def)
next
  case (SetFormFieldEv k v)
  then show ?thesis by (simp add: keeps_state_changeValue)
qed (simp_all add: keeps_state_def enqueue_def)

lemma keeps_state_run_task: "keeps_state w (run_task cfg t w)"
  by (cases t) (simp_all add: keeps_frame_state keeps_frame_after_gate keeps_frame_catch_finally)

lemma settled_pre:
  "settled cfg w \<Longrightarrow> keeps_state w w' \<Longrightarrow>
   deps_synced w' \<and> fresh_ids (cells w') \<and> default_ids (defaultValues cfg) (cells w')
   \<and> marker_ok (cells w') \<and> rendered w' = form_self_of (defaultValues cfg) (cells w')"
  by (simp add: settled_def keeps_state_def deps_synced_def)

lemma settled_step: "settled cfg w \<Longrightarrow> step cfg a w = Some w' \<Longrightarrow> settled cfg w'"
proof -
  assume st: "settled cfg w" and res: "step cfg a w = Some w'"
  show ?thesis
  proof (cases a)
    case (Ui e)
    with res have r: "settle settle_fuel cfg (ui_handler cfg e w) = Some w'"
      by (simp split: if_splits)
    from settled_pre [OF st keeps_state_ui_handler [of w cfg e]] r show ?thesis
      by (intro settle_settled) auto
  next
    case (Resume i)
    let ?w = "w\<lparr>tasks := take i (tasks w) @ drop (Suc i) (tasks w)\<rparr>"
    have st': "settled cfg ?w" using st by (simp add: settled_def deps_synced_def)
    from Resume res have r: "settle settle_fuel cfg (run_task cfg (tasks w ! i) ?w) = Some w'"
      by (simp split: if_splits)
    from settled_pre [OF st' keeps_state_run_task [of ?w cfg "tasks w ! i"]] r show ?thesis
      by (intro settle_settled) auto
  qed
qed

lemma mount_settled: "settled cfg (mount cfg)"
proof -
  let ?s = "init_form_state (defaultValues cfg)"
  show ?thesis
    by (simp add: settled_def mount_def Let_def deps_synced_def fresh_ids_def default_ids_def
        marker_ok_def init_form_state_def didChange_body_def mount_effect_def submit_body_def
        call_if_def changed_value_def)
qed

lemma settled_invariant: "reachable cfg w \<Longrightarrow> settled cfg w"
proof (induction rule: reachable.induct)
  case init
  show ?case by (rule mount_settled)
next
  case (step w a w')
  from step.IH step.hyps(2) show ?case by (rule settled_step)
qed

text \<open>C2. The runtime invariant: in every reachable world the commit loop has drained the
  queue, each effect's recorded dependencies are those of the current cells, object
  identities are fresh or the memoised defaults, the change marker has been serviced
  (it can only remain set for a field named by the empty string, which is falsy), and the
  closures the UI holds are those of a render of the current cells.\<close>

theorem reachable_settled: "reachable cfg w \<Longrightarrow> settled cfg w"
  by (rule settled_invariant)

theorem reachable_settled_witness:
  "reachable (plain_config [(''a'', JNum 1)]) (mount (plain_config [(''a'', JNum 1)]))
   \<and> settled (plain_config [(''a'', JNum 1)]) (mount (plain_config [(''a'', JNum 1)]))"
  using reachable_settled [OF reachable.init, of "plain_config [(''a'', JNum 1)]"]
  by (simp add: reachable.init)

end
