(* ===== verification/ChangePipeline.thy ===== *)
theory ChangePipeline
  imports Settled
begin

text \<open>
  The change pipeline (\<open>src/lib/index.tsx\<close>, lines 203--351): every field mutation
  goes through \<open>_changeValue\<close>, which either hands over to \<open>fieldOnChange\<close> or queues
  the default reducer (write the value, clear the error, set the \<open>fieldChanged\<close>
  marker); the did-change effect then reports the marked field to \<open>fieldDidChange\<close>
  and clears the marker. The theorems here run the pipeline through the runtime, from any
  reachable world: one change yields one notification with the new value, but the
  snapshot the notification carries is the mount-time one (\<open>formSelfRef\<close> is only
  written by the mount effect); a batch of changes (\<open>setAllFields\<close>) yields one
  notification, for the field \<open>for ... in\<close> enumerates last; with an override, the
  batch is forwarded key by key in that order; \<open>setAllFields()\<close> re-applies the
  defaults.
  \<open>settle_marked\<close> is the shared lemma: whatever batch leaves the marker on a field, the
  commit loop ends with the batch committed, the marker cleared and exactly one
  notification. \<open>settle_marked_empty\<close> is its counterpart for the empty field name,
  which the effect's truthiness test skips: no notification, and the marker stays set.
\<close>

fun is_didChange :: "hook_call \<Rightarrow> bool" where
  "is_didChange (FieldDidChange r k v) = True"
| "is_didChange _ = False"

fun change_of :: "ui_event \<Rightarrow> (string \<times> jsval) option" where
  "change_of (Handle (OnChangeText k) raw) = Some (k, target_value raw)"
| "change_of (Handle (OnChangeCheckBox k) raw) = Some (k, target_checked raw)"
| "change_of (Handle (OnChangeRadio k rv) raw) = Some (k, rv)"
| "change_of (SetFormFieldEv k v) = Some (k, v)"
| "change_of _ = None"

fun change_closure :: "ui_event \<Rightarrow> world \<Rightarrow> form_self" where
  "change_closure (SetFormFieldEv k v) w = first_render w"
| "change_closure e w = rendered w"

text \<open>A world whose pending batch leaves the marker on the empty field name, which the
  effect's \<open>if (fieldChanged)\<close> treats as absent, and sets no other marker.\<close>

definition empty_marked :: "jsval obj \<Rightarrow> world \<Rightarrow> bool" where
  "empty_marked dv w \<longleftrightarrow>
     fieldChanged (apply_updates dv (cells w) (queue w)) = Some ''''
     \<and> (\<forall>f. UpdFieldChanged f \<in> set (queue w) \<longrightarrow> f = Some '''')"

definition cfg_ab :: config where
  "cfg_ab = plain_config [(''a'', JNum 1), (''b'', JNum 2)]"

definition mount_snapshot :: "config \<Rightarrow> form_self" where
  "mount_snapshot cfg = form_self_of (defaultValues cfg) (init_form_state (defaultValues cfg))"

lemma didChanges_catch_finally [simp]:
  "filter is_didChange (calls (submit_catch_finally cfg r x w)) = filter is_didChange (calls w)"
  by (simp add: submit_catch_finally_def call_if_def enqueue_def Let_def split: option.split)

lemma didChanges_after_gate [simp]:
  "filter is_didChange (calls (submit_after_gate cfg r ok w)) = filter is_didChange (calls w)"
  by (simp add: submit_after_gate_def enqueue_def Let_def split: option.split submit_result.split)

lemma didChanges_onSubmit [simp]:
  "filter is_didChange (calls (onSubmit cfg r w)) = filter is_didChange (calls w)"
  by (simp add: onSubmit_def Let_def split: option.split sum.split)

lemma didChanges_submit_effect [simp]:
  "filter is_didChange (calls (submit_effect cfg w)) = filter is_didChange (calls w)"
  by (simp add: submit_effect_def submit_body_def)

lemma didChanges_render [simp]:
  "filter is_didChange (calls (render cfg w)) = filter is_didChange (calls w)"
  by (simp add: render_def call_if_def Let_def)

lemma settle_round2_calls:
  assumes sync: "deps_synced w" and eff: "list_all effect_update (queue w)" and mnt: "mounted w"
    and res: "settle (Suc (Suc n)) cfg w = Some w'"
  shows "cells w' = apply_updates (defaultValues cfg) (cells w) (queue w)
    \<and> filter is_didChange (calls w') = filter is_didChange (calls w)"
proof (cases "queue w = []")
  case True
  with res show ?thesis by simp
next
  case False
  define s' where "s' = apply_updates (defaultValues cfg) (cells w) (queue w)"
  define w1 where "w1 = w\<lparr>cells := s', queue := []\<rparr>"
  have s': "formValues s' = formValues (cells w)" "formErrorsId s' = formErrorsId (cells w)"
    "fieldChanged s' = fieldChanged (cells w) \<or> fieldChanged s' = None"
    "submitting s' = submitting (cells w) \<or> \<not> submitting s'"
    using apply_effect_updates [OF eff, of "defaultValues cfg" "cells w"] by (simp_all add: s'_def)
  have cv: "fieldChanged s' = fieldChanged (cells w) \<Longrightarrow> changed_value s' = changed_value (cells w)"
    using s'(1) by (simp add: changed_value_def)
  show ?thesis
  proof (cases "cells_differ (cells w) s'")
    case False
    with res \<open>queue w \<noteq> []\<close> mnt have "w' = w1"
      by (simp add: Let_def s'_def [symmetric] w1_def)
    then show ?thesis by (simp add: w1_def s'_def)
  next
    case True
    let ?w2 = "render cfg w1"
    have dc: "filter is_didChange (calls (didChange_effect cfg ?w2)) = filter is_didChange (calls ?w2)"
    proof (cases "dep_fieldChanged ?w2 = fieldChanged (cells ?w2)
         \<and> js_strict_eq (dep_changedValue ?w2) (changed_value (cells ?w2))")
      case True
      then show ?thesis by (simp add: didChange_effect_def)
    next
      case nf: False
      with sync cv s'(3) have "fieldChanged s' = None"
        by (auto simp: w1_def deps_synced_def)
      with nf show ?thesis by (simp add: didChange_effect_def didChange_body_def w1_def)
    qed
    have q1: "queue (didChange_effect cfg ?w2) = []"
      using sync s'(3) cv by (intro didChange_effect_quiet) (auto simp: w1_def deps_synced_def)
    have d1: "dep_submitting (didChange_effect cfg ?w2) = submitting (cells w)"
      "dep_formErrorsId (didChange_effect cfg ?w2) = formErrorsId (cells w)"
      "cells (didChange_effect cfg ?w2) = s'"
      using didChange_effect_synced [of cfg ?w2] sync by (simp_all add: w1_def deps_synced_def)
    have q: "queue (run_effects cfg ?w2) = []"
      unfolding run_effects_def using q1 d1 s'(2,4) by (intro submit_effect_quiet) auto
    with True res \<open>queue w \<noteq> []\<close> mnt have "w' = run_effects cfg ?w2"
      by (simp add: Let_def s'_def [symmetric] w1_def [symmetric])
    with dc show ?thesis by (simp add: run_effects_def w1_def s'_def)
  qed
qed

lemma settle_objects:
  "settle n cfg w = Some w' \<Longrightarrow> list_all effect_update (queue w) \<Longrightarrow>
   formValues (cells w') = formValues (cells w) \<and> formErrors (cells w') = formErrors (cells w)
   \<and> (submitting (cells w') \<longrightarrow> submitting (cells w))"
proof (induction n arbitrary: w)
  case 0
  then show ?case by simp
next
  case (Suc n)
  let ?s' = "apply_updates (defaultValues cfg) (cells w) (queue w)"
  let ?w2 = "run_effects cfg (render cfg (w\<lparr>cells := ?s', queue := []\<rparr>))"
  have s': "formValues ?s' = formValues (cells w)" "formErrors ?s' = formErrors (cells w)"
    "submitting ?s' \<longrightarrow> submitting (cells w)"
    using apply_effect_updates [OF Suc.prems(2), of "defaultValues cfg" "cells w"]
      apply_effect_updates_errors [OF Suc.prems(2)] by auto
  show ?case
  proof (cases "queue w = [] \<or> \<not> mounted w \<or> \<not> cells_differ (cells w) ?s'")
    case True
    with Suc.prems(1) s' show ?thesis by (auto simp: Let_def split: if_splits)
  next
    case False
    with Suc.prems(1) have r: "settle n cfg ?w2 = Some w'" by (simp add: Let_def)
    have "list_all effect_update (queue ?w2)" by (rule queue_run_effects) simp
    from Suc.IH [OF r this] s' show ?thesis by (simp add: run_effects_def)
  qed
qed

lemma settle_first_commit:
  assumes mnt: "mounted w" and res: "settle (Suc n) cfg w = Some w'"
  shows "formValues (cells w') = formValues (apply_updates (defaultValues cfg) (cells w) (queue w))
    \<and> formErrors (cells w') = formErrors (apply_updates (defaultValues cfg) (cells w) (queue w))
    \<and> (submitting (cells w') \<longrightarrow> submitting (apply_updates (defaultValues cfg) (cells w) (queue w)))"
proof -
  let ?s' = "apply_updates (defaultValues cfg) (cells w) (queue w)"
  let ?w1 = "w\<lparr>cells := ?s', queue := []\<rparr>"
  show ?thesis
  proof (cases "queue w = [] \<or> \<not> cells_differ (cells w) ?s'")
    case True
    with res mnt show ?thesis by (auto simp: Let_def split: if_splits)
  next
    case False
    with res mnt have r: "settle n cfg (run_effects cfg (render cfg ?w1)) = Some w'"
      by (simp add: Let_def)
    have "list_all effect_update (queue (run_effects cfg (render cfg ?w1)))"
      by (rule queue_run_effects) simp
    from settle_objects [OF r this] show ?thesis by (simp add: run_effects_def)
  qed
qed

lemma didChange_effect_empty:
  assumes "fieldChanged (cells w) = Some ''''"
  shows "queue (didChange_effect cfg w) = queue w \<and> cells (didChange_effect cfg w) = cells w
    \<and> filter is_didChange (calls (didChange_effect cfg w)) = filter is_didChange (calls w)"
  using assms by (simp add: didChange_effect_def didChange_body_def)

lemma change_handler:
  "change_of e = Some (k, v) \<Longrightarrow> \<not> has_fieldOnChange cfg \<Longrightarrow>
   ui_handler cfg e w = enqueue (onFieldChangingDefault k v) w"
  by (cases e rule: change_of.cases) (simp_all add: changeValue_def)

lemma settle_marked:
  assumes st: "settled cfg w" and mnt: "mounted w" and k: "k \<noteq> ''''"
    and fc: "fieldChanged (apply_updates (defaultValues cfg) (cells w) q) = Some k"
    and res: "settle settle_fuel cfg (enqueue q w) = Some w'"
  shows "formValues (cells w') = formValues (apply_updates (defaultValues cfg) (cells w) q)
    \<and> formErrors (cells w') = formErrors (apply_updates (defaultValues cfg) (cells w) q)
    \<and> fieldChanged (cells w') = None
    \<and> filter is_didChange (calls w') = filter is_didChange (calls w)
        @ (if has_fieldDidChange cfg
           then [FieldDidChange (selfRef w) k
                   (js_get (formValues (apply_updates (defaultValues cfg) (cells w) q)) k)]
           else [])"
proof -
  let ?s1 = "apply_updates (defaultValues cfg) (cells w) q"
  let ?w0 = "enqueue q w"
  let ?w1 = "?w0\<lparr>cells := ?s1, queue := []\<rparr>"
  let ?wr = "render cfg ?w1"
  let ?w2 = "run_effects cfg ?wr"
  have q0: "queue w = []" and sync: "deps_synced w" and mk: "marker_ok (cells w)"
    using st by (simp_all add: settled_def)
  have qne: "q \<noteq> []" using fc mk k by (auto simp: marker_ok_def)
  have differ: "cells_differ (cells w) ?s1"
    using fc mk k by (auto simp: cells_differ_def marker_ok_def)
  have res2: "settle (Suc (Suc 0)) cfg ?w2 = Some w'"
    using res differ mnt q0 qne
    by (simp add: settle_fuel_def numeral_3_eq_3 Let_def enqueue_def)
  have ndep: "\<not> (dep_fieldChanged ?wr = fieldChanged (cells ?wr)
                 \<and> js_strict_eq (dep_changedValue ?wr) (changed_value (cells ?wr)))"
    using sync mk k fc by (auto simp: deps_synced_def marker_ok_def enqueue_def)
  have dc: "didChange_effect cfg ?wr =
      enqueue [UpdFieldChanged None]
        (call_if (has_fieldDidChange cfg) (FieldDidChange (selfRef w) k (js_get (formValues ?s1) k))
          (?wr\<lparr>dep_fieldChanged := Some k, dep_changedValue := changed_value ?s1\<rparr>))"
  proof -
    have "didChange_effect cfg ?wr = didChange_body cfg
          (?wr\<lparr>dep_fieldChanged := fieldChanged (cells ?wr), dep_changedValue := changed_value (cells ?wr)\<rparr>)"
      by (simp only: didChange_effect_def ndep if_False)
    also have "\<dots> = enqueue [UpdFieldChanged None]
        (call_if (has_fieldDidChange cfg) (FieldDidChange (selfRef w) k (js_get (formValues ?s1) k))
          (?wr\<lparr>dep_fieldChanged := Some k, dep_changedValue := changed_value ?s1\<rparr>))"
      using k fc by (simp add: didChange_body_def enqueue_def render_def Let_def)
    finally show ?thesis .
  qed
  have eff2: "list_all effect_update (queue ?w2)"
    by (rule queue_run_effects) (simp add: enqueue_def)
  have fc2: "UpdFieldChanged None \<in> set (queue ?w2)"
    using dc submit_effect_queue_prefix [of cfg "didChange_effect cfg ?wr"] q0
    by (auto simp: run_effects_def enqueue_def call_if_def)
  have calls2: "filter is_didChange (calls ?w2) = filter is_didChange (calls w)
        @ (if has_fieldDidChange cfg then [FieldDidChange (selfRef w) k (js_get (formValues ?s1) k)] else [])"
    using dc by (simp add: run_effects_def call_if_def enqueue_def)
  have cells2: "cells ?w2 = ?s1" by (simp add: run_effects_def)
  have m2: "mounted ?w2" using mnt by (simp add: enqueue_def)
  from settle_round2_calls [OF run_effects_synced eff2 m2 res2]
  have fin: "cells w' = apply_updates (defaultValues cfg) ?s1 (queue ?w2)"
    "filter is_didChange (calls w') = filter is_didChange (calls ?w2)"
    unfolding cells2 by simp_all
  show ?thesis
    using fin calls2 apply_effect_updates [OF eff2, of "defaultValues cfg" ?s1]
      apply_effect_updates_errors [OF eff2, of "defaultValues cfg" ?s1]
      apply_effect_updates_marker [OF eff2 fc2, of "defaultValues cfg" ?s1]
    by simp
qed

lemma settle_empty_marker:
  "settle n cfg w = Some w' \<Longrightarrow> mounted w \<Longrightarrow> empty_marked (defaultValues cfg) w \<Longrightarrow>
   fieldChanged (cells w') = Some '''' \<and> filter is_didChange (calls w') = filter is_didChange (calls w)"
proof (induction n arbitrary: w)
  case 0
  then show ?case by simp
next
  case (Suc n)
  let ?s' = "apply_updates (defaultValues cfg) (cells w) (queue w)"
  let ?w1 = "w\<lparr>cells := ?s', queue := []\<rparr>"
  let ?wd = "didChange_effect cfg (render cfg ?w1)"
  have fc: "fieldChanged ?s' = Some ''''" using Suc.prems(3) by (simp add: empty_marked_def)
  show ?case
  proof (cases "queue w = [] \<or> \<not> cells_differ (cells w) ?s'")
    case True
    with Suc.prems(1,2) fc show ?thesis by (auto simp: Let_def split: if_splits)
  next
    case False
    with Suc.prems(1,2) have r: "settle n cfg (run_effects cfg (render cfg ?w1)) = Some w'"
      by (simp add: Let_def)
    have d: "queue ?wd = [] \<and> cells ?wd = ?s'
      \<and> filter is_didChange (calls ?wd) = filter is_didChange (calls w)"
      using didChange_effect_empty [of "render cfg ?w1" cfg] fc by simp
    have q2: "queue (run_effects cfg (render cfg ?w1)) \<in> {[], [UpdSubmitting False]}"
      using queue_submit_effect [of cfg ?wd] d by (simp add: run_effects_def)
    have "empty_marked (defaultValues cfg) (run_effects cfg (render cfg ?w1))"
      using q2 fc d by (auto simp: empty_marked_def run_effects_def)
    moreover have "mounted (run_effects cfg (render cfg ?w1))"
      using Suc.prems(2) by (simp add: run_effects_def)
    ultimately show ?thesis using Suc.IH [OF r] d by (simp add: run_effects_def)
  qed
qed

lemma settle_marked_empty:
  assumes st: "settled cfg w" and mnt: "mounted w"
    and fc: "fieldChanged (apply_updates (defaultValues cfg) (cells w) q) = Some ''''"
    and nq: "\<forall>f. UpdFieldChanged f \<in> set q \<longrightarrow> f = Some ''''"
    and res: "settle settle_fuel cfg (enqueue q w) = Some w'"
  shows "formValues (cells w') = formValues (apply_updates (defaultValues cfg) (cells w) q)
    \<and> formErrors (cells w') = formErrors (apply_updates (defaultValues cfg) (cells w) q)
    \<and> fieldChanged (cells w') = Some ''''
    \<and> filter is_didChange (calls w') = filter is_didChange (calls w)"
proof -
  have q0: "queue w = []" using st by (simp add: settled_def)
  have res': "settle (Suc 2) cfg (enqueue q w) = Some w'"
    using res by (simp add: settle_fuel_def numeral_3_eq_3)
  have em: "empty_marked (defaultValues cfg) (enqueue q w)"
    using fc nq q0 by (simp add: empty_marked_def enqueue_def)
  have m0: "mounted (enqueue q w)" using mnt by (simp add: enqueue_def)
  from settle_first_commit [OF m0 res'] settle_empty_marker [OF res' m0 em] q0
  show ?thesis by (simp add: enqueue_def)
qed

lemma settle_keeps_ref:
  "settle n cfg w = Some w' \<Longrightarrow> selfRef w' = selfRef w \<and> first_render w' = first_render w"
proof (induction n cfg w rule: settle.induct)
  case (1 cfg w)
  then show ?case by simp
next
  case (2 n cfg w)
  have "selfRef (run_effects cfg w1) = selfRef w1 \<and> first_render (run_effects cfg w1) = first_render w1"
    for w1
    using keeps_frame_didChange_body [of _ cfg] keeps_frame_onSubmit [of _ cfg]
    by (simp add: run_effects_def didChange_effect_def submit_effect_def submit_body_def keeps_frame_def)
  with 2 show ?case
    by (auto simp: Let_def render_def call_if_def split: if_splits)
qed

lemma step_keeps_ref:
  "step cfg a w = Some w' \<Longrightarrow> selfRef w' = selfRef w \<and> first_render w' = first_render w"
proof (cases a)
  case (Ui e)
  assume "step cfg a w = Some w'"
  with Ui have "settle settle_fuel cfg (ui_handler cfg e w) = Some w'" by (simp split: if_splits)
  from settle_keeps_ref [OF this] keeps_state_ui_handler [of w cfg e] show ?thesis
    by (simp add: keeps_state_def)
next
  case (Resume i)
  assume "step cfg a w = Some w'"
  let ?w = "w\<lparr>tasks := take i (tasks w) @ drop (Suc i) (tasks w)\<rparr>"
  from Resume \<open>step cfg a w = Some w'\<close>
  have "settle settle_fuel cfg (run_task cfg (tasks w ! i) ?w) = Some w'" by (simp split: if_splits)
  from settle_keeps_ref [OF this] keeps_state_run_task [of ?w cfg "tasks w ! i"] show ?thesis
    by (simp add: keeps_state_def)
qed

lemma reachable_ref:
  "reachable cfg w \<Longrightarrow> selfRef w = Some (mount_snapshot cfg) \<and> first_render w = mount_snapshot cfg"
proof (induction rule: reachable.induct)
  case init
  show ?case
    by (simp add: mount_def Let_def mount_snapshot_def mount_effect_def didChange_body_def
        submit_body_def call_if_def init_form_state_def)
next
  case (step w a w')
  with step_keeps_ref show ?case by metis
qed

lemma setAllFields_default:
  "\<not> has_fieldOnChange cfg \<Longrightarrow>
   setAllFields cfg r (Some m) w =
     enqueue (concat (map (\<lambda>k. onFieldChangingDefault k (js_get m k)) (js_own_keys m))) w"
proof -
  assume no: "\<not> has_fieldOnChange cfg"
  have "foldl (\<lambda>w k. changeValue cfg r k (f k) w) w ks =
        enqueue (concat (map (\<lambda>k. onFieldChangingDefault k (f k)) ks)) w" for f ks w
    using no by (induction ks arbitrary: w) (simp_all add: changeValue_def enqueue_def)
  then show ?thesis by (simp add: setAllFields_def)
qed

lemma apply_changes:
  "formValues (apply_updates dv s (concat (map (\<lambda>k. onFieldChangingDefault k (f k)) ks))) =
     foldl (\<lambda>acc k. AList.update k (f k) acc) (formValues s) ks
   \<and> formErrors (apply_updates dv s (concat (map (\<lambda>k. onFieldChangingDefault k (f k)) ks))) =
     foldl (\<lambda>acc k. AList.update k JNull acc) (formErrors s) ks
   \<and> fieldChanged (apply_updates dv s (concat (map (\<lambda>k. onFieldChangingDefault k (f k)) ks))) =
     (if ks = [] then fieldChanged s else Some (last ks))"
  by (induction ks arbitrary: s) (simp_all add: onFieldChangingDefault_def setForm_def setError_def)

lemma mount_facts:
  "mounted (mount cfg) \<and> queue (mount cfg) = [] \<and> tasks (mount cfg) = []
   \<and> cells (mount cfg) = init_form_state (defaultValues cfg)
   \<and> filter is_didChange (calls (mount cfg)) = []"
  by (simp add: mount_def Let_def mount_effect_def didChange_body_def submit_body_def call_if_def
      init_form_state_def register_sweep_def comp_def)

text \<open>C1. The default change pipeline (no \<open>fieldOnChange\<close>): after a change through a
  text, check-box or radio binding or through \<open>setFormField\<close>, in one step the field
  holds the new value and its error is \<open>null\<close>. For a non-empty field name the change
  marker is cleared and exactly one \<open>fieldDidChange\<close> call is made, carrying the field
  and the new value, with the snapshot held in \<open>formSelfRef\<close>, which is the one of
  the first render. For the empty field name, which \<open>if (fieldChanged)\<close> treats as
  false, no call is made and the marker stays set.\<close>

theorem change_pipeline_default:
  assumes reach: "reachable cfg w" and mnt: "mounted w" and no: "\<not> has_fieldOnChange cfg"
    and ch: "change_of e = Some (k, v)"
    and st: "step cfg (Ui e) w = Some w'"
  shows "js_get (formValues (cells w')) k = v \<and> js_get (formErrors (cells w')) k = JNull
    \<and> fieldChanged (cells w') = (if k = '''' then Some '''' else None)
    \<and> filter is_didChange (calls w') = filter is_didChange (calls w)
        @ (if has_fieldDidChange cfg \<and> k \<noteq> ''''
           then [FieldDidChange (Some (mount_snapshot cfg)) k v] else [])"
proof -
  have res: "settle settle_fuel cfg (enqueue (onFieldChangingDefault k v) w) = Some w'"
    using st mnt change_handler [OF ch no] by simp
  have fc: "fieldChanged (apply_updates (defaultValues cfg) (cells w) (onFieldChangingDefault k v)) = Some k"
    by (simp add: onFieldChangingDefault_def setForm_def setError_def)
  show ?thesis
  proof (cases "k = ''''")
    case True
    have nq: "\<forall>f. UpdFieldChanged f \<in> set (onFieldChangingDefault k v) \<longrightarrow> f = Some ''''"
      using True by (simp add: onFieldChangingDefault_def setForm_def setError_def)
    from settle_marked_empty [OF settled_invariant [OF reach] mnt _ nq res] fc True
    show ?thesis by (simp add: onFieldChangingDefault_def setForm_def setError_def)
  next
    case False
    from settle_marked [OF settled_invariant [OF reach] mnt False fc res] reachable_ref [OF reach] False
    show ?thesis by (simp add: onFieldChangingDefault_def setForm_def setError_def)
  qed
qed

theorem change_pipeline_default_witness:
  "\<exists>w'. step (plain_config [(''a'', JNum 1), (''b'', JNum 2)]\<lparr>has_fieldDidChange := True\<rparr>)
          (Ui (Handle (OnChangeText ''a'') (JNum 9)))
          (mount (plain_config [(''a'', JNum 1), (''b'', JNum 2)]\<lparr>has_fieldDidChange := True\<rparr>)) = Some w'
     \<and> js_get (formValues (cells w')) ''a'' = JNum 9
     \<and> filter is_didChange (calls w') =
         [FieldDidChange (Some (mount_snapshot (plain_config [(''a'', JNum 1), (''b'', JNum 2)])))
            ''a'' (JNum 9)]"
proof -
  let ?cfg = "plain_config [(''a'', JNum 1), (''b'', JNum 2)]\<lparr>has_fieldDidChange := True\<rparr>"
  let ?e = "Ui (Handle (OnChangeText ''a'') (JNum 9))"
  have en: "enabled ?e (mount ?cfg)" using mount_facts by (simp add: enabled_def)
  then obtain w' where st: "step ?cfg ?e (mount ?cfg) = Some w'" using step_total by blast
  have c0: "filter is_didChange (calls (mount ?cfg)) = []" using mount_facts by simp
  have "mounted (mount ?cfg)" using mount_facts by simp
  from change_pipeline_default [OF reachable.init this _ _ st]
  have "js_get (formValues (cells w')) ''a'' = JNum 9
     \<and> filter is_didChange (calls w') = [FieldDidChange (Some (mount_snapshot ?cfg)) ''a'' (JNum 9)]"
    using c0 by (simp add: plain_config_def target_value_def)
  moreover have "mount_snapshot ?cfg = mount_snapshot (plain_config [(''a'', JNum 1), (''b'', JNum 2)])"
    by (simp add: mount_snapshot_def)
  ultimately show ?thesis using st by auto
qed

text \<open>The empty field name on a concrete run: two changes of the field \<open>''''\<close>
  are written, but neither is reported and the marker is never cleared.\<close>

theorem change_empty_name_silent:
  "map_option (\<lambda>w. (js_get (formValues (cells w)) '''', fieldChanged (cells w),
                    filter is_didChange (calls w)))
     (run (plain_config [('''', JNum 1)]\<lparr>has_fieldDidChange := True\<rparr>)
        [Ui (Handle (OnChangeText '''') (JNum 9)), Ui (Handle (OnChangeText '''') (JNum 7))]
        (mount (plain_config [('''', JNum 1)]\<lparr>has_fieldDidChange := True\<rparr>)))
   = Some (JNum 7, Some '''', [])"
  by code_simp

text \<open>C16. \<open>setAllFields(m)\<close> writes every entry of \<open>m\<close> over the values and clears
  their errors, but the per-field change markers of one batch overwrite each other: only
  the field \<open>for ... in\<close> enumerates last (array-index keys come first, whatever
  the insertion order) is reported to \<open>fieldDidChange\<close>.\<close>

theorem setAllFields_notifies_last_only:
  assumes reach: "reachable cfg w" and mnt: "mounted w" and no: "\<not> has_fieldOnChange cfg"
    and ks: "js_own_keys m = ks @ [k]" and k: "k \<noteq> ''''"
    and st: "step cfg (Ui (SetAllFieldsEv (Some m))) w = Some w'"
  shows "(\<forall>k'. js_get (formValues (cells w')) k' =
           (if k' \<in> set (obj_keys m) then js_get m k' else js_get (formValues (cells w)) k'))
    \<and> (\<forall>k' \<in> set (obj_keys m). js_get (formErrors (cells w')) k' = JNull)
    \<and> filter is_didChange (calls w') = filter is_didChange (calls w)
        @ (if has_fieldDidChange cfg then [FieldDidChange (Some (mount_snapshot cfg)) k (js_get m k)]
           else [])"
proof -
  let ?q = "concat (map (\<lambda>k. onFieldChangingDefault k (js_get m k)) (js_own_keys m))"
  have res: "settle settle_fuel cfg (enqueue ?q w) = Some w'"
    using st mnt setAllFields_default [OF no] by simp
  have ap: "formValues (apply_updates (defaultValues cfg) (cells w) ?q) =
       foldl (\<lambda>acc k. AList.update k (js_get m k) acc) (formValues (cells w)) (js_own_keys m)"
    "formErrors (apply_updates (defaultValues cfg) (cells w) ?q) =
       foldl (\<lambda>acc k. AList.update k JNull acc) (formErrors (cells w)) (js_own_keys m)"
    "fieldChanged (apply_updates (defaultValues cfg) (cells w) ?q) = Some k"
    using apply_changes [of "defaultValues cfg" "cells w" "js_get m" "js_own_keys m"] ks
    by simp_all
  have kin: "k \<in> set (obj_keys m)"
    using ks set_js_own_keys [of m] by (metis in_set_conv_decomp)
  from settle_marked [OF settled_invariant [OF reach] mnt k ap(3) res] reachable_ref [OF reach]
  show ?thesis using ap kin by (simp add: js_get_fold_null js_get_fold_update)
qed

theorem setAllFields_notifies_last_only_witness:
  "\<exists>w'. step (plain_config [(''a'', JNum 1), (''b'', JNum 2)]\<lparr>has_fieldDidChange := True\<rparr>)
          (Ui (SetAllFieldsEv (Some [(''b'', JNum 6), (''1'', JNum 7)])))
          (mount (plain_config [(''a'', JNum 1), (''b'', JNum 2)]\<lparr>has_fieldDidChange := True\<rparr>)) = Some w'
     \<and> js_get (formValues (cells w')) ''1'' = JNum 7 \<and> js_get (formValues (cells w')) ''b'' = JNum 6
     \<and> filter is_didChange (calls w') =
         [FieldDidChange (Some (mount_snapshot (plain_config [(''a'', JNum 1), (''b'', JNum 2)])))
            ''b'' (JNum 6)]"
proof -
  let ?cfg = "plain_config [(''a'', JNum 1), (''b'', JNum 2)]\<lparr>has_fieldDidChange := True\<rparr>"
  let ?m = "[(''b'', JNum 6), (''1'', JNum 7)]"
  let ?e = "Ui (SetAllFieldsEv (Some ?m))"
  have en: "enabled ?e (mount ?cfg)" using mount_facts by (simp add: enabled_def)
  then obtain w' where st: "step ?cfg ?e (mount ?cfg) = Some w'" using step_total by blast
  have mnt: "mounted (mount ?cfg)" using mount_facts by simp
  have ko: "js_own_keys ?m = [''1''] @ [''b'']" by (simp add: js_order_defs)
  have no: "\<not> has_fieldOnChange ?cfg" by (simp add: plain_config_def)
  from setAllFields_notifies_last_only [OF reachable.init mnt no ko _ st]
  have "js_get (formValues (cells w')) ''1'' = JNum 7 \<and> js_get (formValues (cells w')) ''b'' = JNum 6
     \<and> filter is_didChange (calls w') = [FieldDidChange (Some (mount_snapshot ?cfg)) ''b'' (JNum 6)]"
    using mount_facts [of ?cfg] by (simp add: plain_config_def)
  moreover have "mount_snapshot ?cfg = mount_snapshot (plain_config [(''a'', JNum 1), (''b'', JNum 2)])"
    by (simp add: mount_snapshot_def)
  ultimately show ?thesis using st by auto
qed

text \<open>C27. \<open>setAllFields()\<close> without an argument writes back the values of the first
  render (its \<open>useCallback\<close> has no dependencies, so the default argument is the first
  render's \<open>formValues\<close>): after the step every default field holds its default value,
  whatever it held before, and every other field is unchanged.\<close>

theorem setAllFields_default_argument:
  assumes reach: "reachable cfg w" and mnt: "mounted w" and no: "\<not> has_fieldOnChange cfg"
    and st: "step cfg (Ui (SetAllFieldsEv None)) w = Some w'"
  shows "\<forall>k. js_get (formValues (cells w')) k =
    (if k \<in> set (obj_keys (defaultValues cfg)) then js_get (defaultValues cfg) k
     else js_get (formValues (cells w)) k)"
proof -
  let ?dv = "defaultValues cfg"
  let ?q = "concat (map (\<lambda>k. onFieldChangingDefault k (js_get ?dv k)) (js_own_keys ?dv))"
  have fr: "self_formValues (first_render w) = ?dv"
    using reachable_ref [OF reach] by (simp add: mount_snapshot_def form_self_of_def init_form_state_def)
  have "setAllFields cfg (first_render w) None w = setAllFields cfg (first_render w) (Some ?dv) w"
    using fr by (simp add: setAllFields_def)
  then have h: "setAllFields cfg (first_render w) None w = enqueue ?q w"
    using setAllFields_default [OF no] by simp
  have q0: "queue w = []" using settled_invariant [OF reach] by (simp add: settled_def)
  have res: "settle (Suc 2) cfg (enqueue ?q w) = Some w'"
    using st mnt h by (simp add: settle_fuel_def numeral_3_eq_3)
  have "formValues (cells w') = formValues (apply_updates ?dv (cells w) ?q)"
    using settle_first_commit [OF _ res] mnt q0 by (simp add: enqueue_def)
  also have "\<dots> = foldl (\<lambda>acc k. AList.update k (js_get ?dv k) acc) (formValues (cells w)) (js_own_keys ?dv)"
    using apply_changes [of ?dv "cells w" "js_get ?dv" "js_own_keys ?dv"] by simp
  finally show ?thesis by (simp add: js_get_fold_update)
qed

theorem setAllFields_default_argument_witness:
  "\<exists>w1 w'. run cfg_ab [Ui (SetFormFieldEv ''a'' (JNum 9))] (mount cfg_ab) = Some w1
     \<and> js_get (formValues (cells w1)) ''a'' = JNum 9
     \<and> step cfg_ab (Ui (SetAllFieldsEv None)) w1 = Some w'
     \<and> js_get (formValues (cells w')) ''a'' = JNum 1"
proof -
  have "map_option (\<lambda>w. (mounted w, js_get (formValues (cells w)) ''a''))
      (run cfg_ab [Ui (SetFormFieldEv ''a'' (JNum 9))] (mount cfg_ab)) = Some (True, JNum 9)"
    by code_simp
  then obtain w1 where r1: "run cfg_ab [Ui (SetFormFieldEv ''a'' (JNum 9))] (mount cfg_ab) = Some w1"
    and m: "mounted w1" and a: "js_get (formValues (cells w1)) ''a'' = JNum 9"
    by (auto split: option.splits)
  have reach: "reachable cfg_ab w1" using reachable_run [OF r1 reachable.init] .
  have "enabled (Ui (SetAllFieldsEv None)) w1" using m by (simp add: enabled_def)
  then obtain w' where st: "step cfg_ab (Ui (SetAllFieldsEv None)) w1 = Some w'" using step_total by blast
  have no: "\<not> has_fieldOnChange cfg_ab" by (simp add: cfg_ab_def plain_config_def)
  from setAllFields_default_argument [OF reach m no st]
  have "js_get (formValues (cells w')) ''a'' = JNum 1" by (simp add: cfg_ab_def plain_config_def)
  with r1 a st show ?thesis by blast
qed

lemma override_handler:
  "change_of e = Some (k, v) \<Longrightarrow> has_fieldOnChange cfg \<Longrightarrow>
   ui_handler cfg e w = w\<lparr>calls := calls w @ [FieldOnChange (change_closure e w) k v]\<rparr>"
  by (cases e rule: change_of.cases) (simp_all add: changeValue_def)

text \<open>C18. With a \<open>fieldOnChange\<close> override, a change leaves the cells untouched and makes
  one call of the override with the field, the value and the closure's snapshot: the
  latest render's for a binding, the first render's for \<open>setFormField\<close>.\<close>

theorem change_override_delegates:
  assumes reach: "reachable cfg w" and mnt: "mounted w" and ov: "has_fieldOnChange cfg"
    and ch: "change_of e = Some (k, v)" and st: "step cfg (Ui e) w = Some w'"
  shows "cells w' = cells w \<and> calls w' = calls w @ [FieldOnChange (change_closure e w) k v]
    \<and> first_render w = mount_snapshot cfg"
proof -
  have "queue w = []" using settled_invariant [OF reach] by (simp add: settled_def)
  with st mnt override_handler [OF ch ov, of w]
  have "w' = w\<lparr>calls := calls w @ [FieldOnChange (change_closure e w) k v]\<rparr>"
    by (simp add: settle_fuel_def numeral_3_eq_3)
  with reachable_ref [OF reach] show ?thesis by simp
qed

theorem change_override_delegates_witness:
  "\<exists>w'. step (plain_config [(''a'', JNum 1)]\<lparr>has_fieldOnChange := True\<rparr>)
          (Ui (SetFormFieldEv ''a'' (JNum 9)))
          (mount (plain_config [(''a'', JNum 1)]\<lparr>has_fieldOnChange := True\<rparr>)) = Some w'
     \<and> formValues (cells w') = [(''a'', JNum 1)]
     \<and> last (calls w') = FieldOnChange (mount_snapshot (plain_config [(''a'', JNum 1)])) ''a'' (JNum 9)"
proof -
  let ?cfg = "plain_config [(''a'', JNum 1)]\<lparr>has_fieldOnChange := True\<rparr>"
  let ?e = "Ui (SetFormFieldEv ''a'' (JNum 9))"
  have en: "enabled ?e (mount ?cfg)" using mount_facts by (simp add: enabled_def)
  then obtain w' where st: "step ?cfg ?e (mount ?cfg) = Some w'" using step_total by blast
  have "mounted (mount ?cfg)" using mount_facts by simp
  from change_override_delegates [OF reachable.init this _ _ st]
  have "cells w' = cells (mount ?cfg) \<and> calls w' = calls (mount ?cfg) @ [FieldOnChange (mount_snapshot ?cfg) ''a'' (JNum 9)]"
    by (simp add: plain_config_def)
  moreover have "mount_snapshot ?cfg = mount_snapshot (plain_config [(''a'', JNum 1)])"
    by (simp add: mount_snapshot_def)
  moreover have "cells (mount ?cfg) = init_form_state [(''a'', JNum 1)]"
    using mount_facts [of ?cfg] by (simp add: plain_config_def)
  ultimately show ?thesis using st by (auto simp: init_form_state_def)
qed

lemma setAllFields_override:
  "has_fieldOnChange cfg \<Longrightarrow>
   setAllFields cfg r (Some m) w =
     w\<lparr>calls := calls w @ map (\<lambda>k. FieldOnChange r k (js_get m k)) (js_own_keys m)\<rparr>"
proof -
  assume ov: "has_fieldOnChange cfg"
  have "foldl (\<lambda>w k. changeValue cfg r k (f k) w) w ks =
        w\<lparr>calls := calls w @ map (\<lambda>k. FieldOnChange r k (f k)) ks\<rparr>" for f ks w
    using ov by (induction ks arbitrary: w) (simp_all add: changeValue_def)
  then show ?thesis by (simp add: setAllFields_def)
qed

text \<open>C17. With a \<open>fieldOnChange\<close> override, \<open>setAllFields(m)\<close> leaves the cells untouched
  and calls the override once per key of \<open>m\<close>, in the order \<open>for ... in\<close> enumerates
  them (array-index keys first, ascending, then the others in insertion order), each with
  the first render's snapshot.\<close>

theorem setAllFields_forwards_in_order:
  assumes reach: "reachable cfg w" and mnt: "mounted w" and ov: "has_fieldOnChange cfg"
    and st: "step cfg (Ui (SetAllFieldsEv (Some m))) w = Some w'"
  shows "cells w' = cells w
    \<and> calls w' = calls w @ map (\<lambda>k. FieldOnChange (mount_snapshot cfg) k (js_get m k)) (js_own_keys m)"
proof -
  have "queue w = []" using settled_invariant [OF reach] by (simp add: settled_def)
  with st mnt setAllFields_override [OF ov, of "first_render w" m w]
  have "w' = w\<lparr>calls := calls w @ map (\<lambda>k. FieldOnChange (first_render w) k (js_get m k)) (js_own_keys m)\<rparr>"
    by (simp add: settle_fuel_def numeral_3_eq_3)
  with reachable_ref [OF reach] show ?thesis by simp
qed

theorem setAllFields_forwards_in_order_witness:
  "\<exists>w'. step (plain_config [(''a'', JNum 1)]\<lparr>has_fieldOnChange := True\<rparr>)
          (Ui (SetAllFieldsEv (Some [(''b'', JNum 1), (''10'', JNum 2), (''2'', JNum 3)])))
          (mount (plain_config [(''a'', JNum 1)]\<lparr>has_fieldOnChange := True\<rparr>)) = Some w'
     \<and> formValues (cells w') = [(''a'', JNum 1)]
     \<and> drop (length (calls w') - 3) (calls w') =
         [FieldOnChange (mount_snapshot (plain_config [(''a'', JNum 1)])) ''2'' (JNum 3),
          FieldOnChange (mount_snapshot (plain_config [(''a'', JNum 1)])) ''10'' (JNum 2),
          FieldOnChange (mount_snapshot (plain_config [(''a'', JNum 1)])) ''b'' (JNum 1)]"
proof -
  let ?cfg = "plain_config [(''a'', JNum 1)]\<lparr>has_fieldOnChange := True\<rparr>"
  let ?m = "[(''b'', JNum 1), (''10'', JNum 2), (''2'', JNum 3)]"
  let ?e = "Ui (SetAllFieldsEv (Some ?m))"
  have en: "enabled ?e (mount ?cfg)" using mount_facts by (simp add: enabled_def)
  then obtain w' where st: "step ?cfg ?e (mount ?cfg) = Some w'" using step_total by blast
  have mnt: "mounted (mount ?cfg)" using mount_facts by simp
  have ov: "has_fieldOnChange ?cfg" by simp
  have ko: "js_own_keys ?m = [''2'', ''10'', ''b'']" by (simp add: js_order_defs)
  from setAllFields_forwards_in_order [OF reachable.init mnt ov st]
  have "cells w' = cells (mount ?cfg)
     \<and> calls w' = calls (mount ?cfg) @ map (\<lambda>k. FieldOnChange (mount_snapshot ?cfg) k (js_get ?m k)) [''2'', ''10'', ''b'']"
    by (simp only: ko)
  moreover have "mount_snapshot ?cfg = mount_snapshot (plain_config [(''a'', JNum 1)])"
    by (simp add: mount_snapshot_def)
  moreover have "cells (mount ?cfg) = init_form_state [(''a'', JNum 1)]"
    using mount_facts [of ?cfg] by (simp add: plain_config_def)
  ultimately show ?thesis using st by (auto simp: init_form_state_def)
qed

end
