(* ===== verification/Submission.thy ===== *)
theory Submission
  imports ChangePipeline
begin

text \<open>
  The submission state machine (\<open>src/lib/index.tsx\<close>, lines 192--201 and 374--404)
  run through the runtime. \<open>handleSubmit\<close> sets \<open>submitting\<close> (and, without a
  \<open>formOnSubmit\<close> override, clears the errors of its closure); the submitting effect
  then starts \<open>_onSubmit\<close> with the new render's snapshot, which passes the gate,
  calls \<open>formDidSubmit\<close> and is suspended at its \<open>await\<close>s; resuming a suspended
  call routes its outcome to \<open>submitDidCatch\<close> (or \<open>console.error\<close>) and
  \<open>formDidFinally\<close>, and resets \<open>submitting\<close>.

  The hook calls that belong to a submission are selected by \<open>is_submit_call\<close>; the
  reference lists \<open>finish_calls\<close>, \<open>passed_calls\<close> and \<open>passed_tasks\<close> say which
  calls and suspensions the source's \<open>try\<close>/\<open>catch\<close>/\<open>finally\<close> makes once the gate
  has let the submission through. The shared lemmas: \<open>grows_settle\<close> (the commit loop only
  appends calls, continuations and rejections), \<open>reachable_tasks_ok\<close> (every suspended
  call holds a snapshot with \<open>submitting = true\<close>), \<open>settle_stop\<close> (committing
  \<open>setSubmitting(false)\<close> makes no submission call), \<open>settle_submit_round\<close> (the
  commit of a batch that sets \<open>submitting\<close> runs \<open>_onSubmit\<close> once, with the
  snapshot of that batch) and \<open>settle_round2_quiet\<close> (the second round of the commit
  loop makes no submission call).
\<close>

fun is_submit_call :: "hook_call \<Rightarrow> bool" where
  "is_submit_call (FormOnSubmit r) = True"
| "is_submit_call (ShouldFormSubmit r) = True"
| "is_submit_call (FormDidSubmit r) = True"
| "is_submit_call (SubmitDidCatch r e) = True"
| "is_submit_call (ConsoleError e) = True"
| "is_submit_call (FormDidFinally r) = True"
| "is_submit_call _ = False"

fun task_self :: "task \<Rightarrow> form_self" where
  "task_self (AwaitGate r ok) = r"
| "task_self (AwaitSubmit r caught) = r"

definition tasks_ok :: "world \<Rightarrow> bool" where
  "tasks_ok w \<longleftrightarrow> (\<forall>t\<in>set (tasks w). self_submitting (task_self t))"

definition grows :: "world \<Rightarrow> world \<Rightarrow> bool" where
  "grows w w' \<longleftrightarrow> (\<exists>ts. tasks w' = tasks w @ ts) \<and> (\<exists>us. unhandled w' = unhandled w @ us)
     \<and> (\<exists>cs. calls w' = calls w @ cs)"

definition finish_calls :: "config \<Rightarrow> form_self \<Rightarrow> jsval option \<Rightarrow> hook_call list" where
  "finish_calls cfg r caught =
     (case caught of None \<Rightarrow> []
      | Some e \<Rightarrow> [if has_submitDidCatch cfg then SubmitDidCatch r e else ConsoleError e])
     @ (if has_formDidFinally cfg then [FormDidFinally r] else [])"

definition cfg_reject :: config where
  "cfg_reject = (plain_config [(''a'', JNum 1)])
     \<lparr>formDidSubmit := Some (\<lambda>r. Rejects (JStr ''boom'')), has_formDidFinally := True\<rparr>"

definition in_flight :: "world \<Rightarrow> bool" where
  "in_flight w \<longleftrightarrow> mounted w \<longrightarrow> submitting (cells w) \<longrightarrow> tasks w \<noteq> [] \<or> unhandled w \<noteq> []"

definition passed_calls :: "config \<Rightarrow> form_self \<Rightarrow> hook_call list" where
  "passed_calls cfg r =
     (case formDidSubmit cfg of
        None \<Rightarrow> finish_calls cfg r (Some type_error)
      | Some f \<Rightarrow> FormDidSubmit r # (case f r of Throws e \<Rightarrow> finish_calls cfg r (Some e) | _ \<Rightarrow> []))"

definition passed_tasks :: "config \<Rightarrow> form_self \<Rightarrow> task list" where
  "passed_tasks cfg r =
     (case formDidSubmit cfg of
        None \<Rightarrow> []
      | Some f \<Rightarrow> (case f r of Resolves \<Rightarrow> [AwaitSubmit r None]
                           | Rejects e \<Rightarrow> [AwaitSubmit r (Some e)] | Throws e \<Rightarrow> []))"

definition cfg_resolve :: config where
  "cfg_resolve = (plain_config [(''a'', JNum 1)])\<lparr>formDidSubmit := Some (\<lambda>r. Resolves)\<rparr>"

definition cfg_override :: config where
  "cfg_override = cfg_resolve\<lparr>has_formOnSubmit := True\<rparr>"

definition cfg_gate :: "(jsval + bool) \<Rightarrow> config" where
  "cfg_gate v = cfg_resolve\<lparr>shouldFormSubmit := Some (\<lambda>r. v)\<rparr>"

lemma grows_refl [simp]: "grows w w"
  by (simp add: grows_def)

lemma grows_trans: "grows w w' \<Longrightarrow> grows w' w'' \<Longrightarrow> grows w w''"
  unfolding grows_def by (metis append.assoc)

lemma grows_catch_finally: "grows w (submit_catch_finally cfg r x w)"
  by (simp add: grows_def submit_catch_finally_def call_if_def enqueue_def Let_def split: option.split)

lemma grows_after_gate: "grows w (submit_after_gate cfg r ok w)"
proof -
  have g: "grows w (w\<lparr>calls := calls w @ [FormDidSubmit r]\<rparr>)" by (simp add: grows_def)
  show ?thesis
    using grows_trans [OF g grows_catch_finally] grows_catch_finally [of w cfg r]
    by (auto simp: grows_def submit_after_gate_def enqueue_def Let_def
        split: option.split submit_result.split)
qed

lemma grows_onSubmit: "grows w (onSubmit cfg r w)"
  using grows_after_gate [of w cfg r]
  by (auto simp: grows_def onSubmit_def Let_def split: option.split sum.split)

lemma grows_effects: "grows w (run_effects cfg w)" "grows w (render cfg w)"
proof -
  have b: "grows w (didChange_body cfg w)" for w
    by (simp add: grows_def didChange_body_def call_if_def enqueue_def split: option.split)
  have d: "grows w (didChange_effect cfg w)" for w
  proof -
    have "grows w (w\<lparr>dep_fieldChanged := fieldChanged (cells w), dep_changedValue := changed_value (cells w)\<rparr>)"
      by (simp add: grows_def)
    then show ?thesis using grows_trans [OF _ b] by (simp add: didChange_effect_def)
  qed
  have s: "grows w (submit_effect cfg w)" for w
  proof -
    let ?v = "w\<lparr>dep_submitting := submitting (cells w), dep_formErrorsId := formErrorsId (cells w)\<rparr>"
    have g0: "grows w ?v" by (simp add: grows_def)
    have "grows w (submit_body cfg ?v)"
      using g0 grows_trans [OF g0 grows_onSubmit] unfolding submit_body_def
      by (cases "submitting (cells ?v)") (simp_all only: if_True if_False)
    then show ?thesis unfolding submit_effect_def by simp
  qed
  show "grows w (run_effects cfg w)"
    using grows_trans [OF d s] by (simp add: run_effects_def)
  show "grows w (render cfg w)"
    by (simp add: grows_def render_def call_if_def Let_def)
qed

lemma grows_settle: "settle n cfg w = Some w' \<Longrightarrow> grows w w'"
proof (induction n cfg w rule: settle.induct)
  case (1 cfg w)
  then show ?case by simp
next
  case (2 n cfg w)
  let ?s' = "apply_updates (defaultValues cfg) (cells w) (queue w)"
  let ?w1 = "w\<lparr>cells := ?s', queue := []\<rparr>"
  have "grows w ?w1" by (simp add: grows_def)
  then have g1: "grows w (run_effects cfg (render cfg ?w1))"
    using grows_trans grows_effects by blast
  show ?case
  proof (cases "queue w = [] \<or> \<not> mounted w \<or> \<not> cells_differ (cells w) ?s'")
    case True
    with "2.prems" show ?thesis by (auto simp: grows_def Let_def split: if_splits)
  next
    case False
    with "2.prems" have "settle n cfg (run_effects cfg (render cfg ?w1)) = Some w'"
      by (simp add: Let_def)
    with "2.IH" False g1 show ?thesis by (auto simp: Let_def intro: grows_trans)
  qed
qed

lemma tasks_after_gate:
  "t \<in> set (tasks (submit_after_gate cfg r ok w)) \<Longrightarrow> t \<in> set (tasks w) \<or> task_self t = r"
  by (auto simp: submit_after_gate_def submit_catch_finally_def call_if_def enqueue_def Let_def
      split: option.splits submit_result.splits if_splits)

lemma tasks_onSubmit:
  "t \<in> set (tasks (onSubmit cfg r w)) \<Longrightarrow> t \<in> set (tasks w) \<or> task_self t = r"
  using tasks_after_gate [of t cfg r _ w]
  by (auto simp: onSubmit_def Let_def split: option.splits sum.splits)

lemma tasks_render_effects [simp]:
  "tasks (render cfg w) = tasks w" "unhandled (render cfg w) = unhandled w"
  "tasks (didChange_effect cfg w) = tasks w" "unhandled (didChange_effect cfg w) = unhandled w"
  by (simp_all add: render_def didChange_effect_def didChange_body_def call_if_def enqueue_def Let_def
      split: option.split)

lemma tasks_ok_submit_effect:
  assumes ok: "tasks_ok w" and r: "self_submitting (rendered w) = submitting (cells w)"
  shows "tasks_ok (submit_effect cfg w)"
proof -
  define v where "v = w\<lparr>dep_submitting := submitting (cells w), dep_formErrorsId := formErrorsId (cells w)\<rparr>"
  have v: "tasks v = tasks w" "rendered v = rendered w" "cells v = cells w" by (simp_all add: v_def)
  have "tasks_ok (submit_body cfg v)"
  proof (cases "submitting (cells v)")
    case True
    have "self_submitting (task_self t)" if "t \<in> set (tasks (onSubmit cfg (rendered v) v))" for t
      using tasks_onSubmit [OF that] ok r True v by (auto simp: tasks_ok_def)
    then show ?thesis using True by (simp add: tasks_ok_def submit_body_def)
  next
    case False
    then show ?thesis using ok v by (simp add: tasks_ok_def submit_body_def)
  qed
  then show ?thesis using ok by (simp add: submit_effect_def v_def)
qed

lemma tasks_ok_settle: "settle n cfg w = Some w' \<Longrightarrow> tasks_ok w \<Longrightarrow> tasks_ok w'"
proof (induction n cfg w rule: settle.induct)
  case (1 cfg w)
  then show ?case by simp
next
  case (2 n cfg w)
  let ?s' = "apply_updates (defaultValues cfg) (cells w) (queue w)"
  let ?w1 = "w\<lparr>cells := ?s', queue := []\<rparr>"
  have ok1: "tasks_ok (run_effects cfg (render cfg ?w1))"
    unfolding run_effects_def
    using "2.prems"(2) by (intro tasks_ok_submit_effect) (simp_all add: tasks_ok_def)
  show ?case
  proof (cases "queue w = [] \<or> \<not> mounted w \<or> \<not> cells_differ (cells w) ?s'")
    case True
    with "2.prems" show ?thesis by (auto simp: tasks_ok_def Let_def split: if_splits)
  next
    case False
    with "2.prems" have "settle n cfg (run_effects cfg (render cfg ?w1)) = Some w'"
      by (simp add: Let_def)
    with "2.IH" False ok1 show ?thesis by (simp add: Let_def)
  qed
qed

lemma tasks_setAllFields [simp]:
  "tasks (setAllFields cfg r a w) = tasks w \<and> unhandled (setAllFields cfg r a w) = unhandled w"
  by (rule setAllFields_induct [where P = "\<lambda>x. tasks x = tasks w \<and> unhandled x = unhandled w"])
    (simp_all add: changeValue_def enqueue_def)

lemma tasks_ui_handler [simp]:
  "tasks (ui_handler cfg e w) = tasks w \<and> unhandled (ui_handler cfg e w) = unhandled w"
proof (cases e)
  case (Handle h raw)
  then show ?thesis by (cases h) (simp_all add: changeValue_def call_if_def enqueue_def)
qed (simp_all add: changeValue_def handleSubmit_def unmount_def call_if_def enqueue_def Let_def)

lemma tasks_ok_step: "tasks_ok w \<Longrightarrow> step cfg a w = Some w' \<Longrightarrow> tasks_ok w'"
proof (cases a)
  case (Ui e)
  assume ok: "tasks_ok w" and st: "step cfg a w = Some w'"
  with Ui have "settle settle_fuel cfg (ui_handler cfg e w) = Some w'" by (simp split: if_splits)
  then show ?thesis by (rule tasks_ok_settle) (use ok in \<open>simp add: tasks_ok_def\<close>)
next
  case (Resume i)
  assume ok: "tasks_ok w" and st: "step cfg a w = Some w'"
  let ?w = "w\<lparr>tasks := take i (tasks w) @ drop (Suc i) (tasks w)\<rparr>"
  from Resume st have i: "i < length (tasks w)"
    and r: "settle settle_fuel cfg (run_task cfg (tasks w ! i) ?w) = Some w'"
    by (simp_all split: if_splits)
  have okw: "tasks_ok ?w"
    using ok set_take_subset [of i "tasks w"] set_drop_subset [of "Suc i" "tasks w"]
    by (auto simp: tasks_ok_def)
  have ti: "self_submitting (task_self (tasks w ! i))"
    using ok i by (simp add: tasks_ok_def)
  have "tasks_ok (run_task cfg (tasks w ! i) ?w)"
  proof (cases "tasks w ! i")
    case (AwaitGate r ok)
    then show ?thesis
      using okw ti tasks_after_gate [of _ cfg r ok ?w] by (auto simp: tasks_ok_def)
  next
    case (AwaitSubmit r x)
    then show ?thesis
      using okw by (simp add: tasks_ok_def submit_catch_finally_def call_if_def enqueue_def Let_def
          split: option.split)
  qed
  with r show ?thesis by (rule tasks_ok_settle)
qed

lemma reachable_tasks_ok: "reachable cfg w \<Longrightarrow> tasks_ok w"
proof (induction rule: reachable.induct)
  case init
  show ?case using mount_facts [of cfg] by (simp add: tasks_ok_def)
next
  case (step w a w')
  from step.IH step.hyps(2) show ?case by (rule tasks_ok_step)
qed

lemma settle_stop:
  assumes sync: "deps_synced w" and mnt: "mounted w" and q: "queue w = [UpdSubmitting False]"
    and res: "settle settle_fuel cfg w = Some w'"
  shows "\<not> submitting (cells w') \<and> tasks w' = tasks w \<and> unhandled w' = unhandled w
    \<and> filter is_submit_call (calls w') = filter is_submit_call (calls w)"
proof (cases "submitting (cells w)")
  case True
  let ?s1 = "(cells w)\<lparr>submitting := False\<rparr>"
  let ?w1 = "w\<lparr>cells := ?s1, queue := []\<rparr>"
  let ?wr = "render cfg ?w1"
  let ?w2 = "?wr\<lparr>dep_submitting := False, dep_formErrorsId := formErrorsId (cells w)\<rparr>"
  have r1: "settle settle_fuel cfg w = settle (Suc (Suc 0)) cfg (run_effects cfg ?wr)"
    using True mnt q by (simp add: settle_fuel_def numeral_3_eq_3 Let_def cells_differ_def)
  have dc: "didChange_effect cfg ?wr = ?wr"
    using sync by (simp add: didChange_effect_def deps_synced_def changed_value_def)
  have se: "submit_effect cfg ?wr = ?w2"
    using True sync by (simp add: submit_effect_def submit_body_def deps_synced_def)
  have "queue ?w2 = []" by simp
  then have "w' = ?w2" using res r1 dc se by (simp add: run_effects_def)
  moreover have "filter is_submit_call (calls ?wr) = filter is_submit_call (calls w)"
    by (simp add: render_def call_if_def Let_def)
  moreover have "tasks ?w2 = tasks w \<and> unhandled ?w2 = unhandled w" by simp
  ultimately show ?thesis by simp
next
  case False
  then show ?thesis
    using False mnt q res
    by (auto simp: settle_fuel_def numeral_3_eq_3 Let_def cells_differ_def)
qed

lemma calls_catch_finally:
  "calls (submit_catch_finally cfg r x w) = calls w @ finish_calls cfg r x
   \<and> queue (submit_catch_finally cfg r x w) = queue w @ [UpdSubmitting False]
   \<and> tasks (submit_catch_finally cfg r x w) = tasks w
   \<and> unhandled (submit_catch_finally cfg r x w) = unhandled w"
  by (simp add: submit_catch_finally_def finish_calls_def call_if_def enqueue_def Let_def
      split: option.split)

lemma finish_calls_submit [simp]: "filter is_submit_call (finish_calls cfg r x) = finish_calls cfg r x"
  by (simp add: finish_calls_def split: option.split)

lemma resume_world:
  assumes reach: "reachable cfg w" and i: "i < length (tasks w)"
    and st: "step cfg (Resume i) w = Some w'"
  shows "settle settle_fuel cfg (run_task cfg (tasks w ! i)
            (w\<lparr>tasks := take i (tasks w) @ drop (Suc i) (tasks w)\<rparr>)) = Some w'"
    and "queue w = []" and "deps_synced w" and "self_submitting (task_self (tasks w ! i))"
  using st i settled_invariant [OF reach] reachable_tasks_ok [OF reach]
  by (simp_all add: settled_def tasks_ok_def)

text \<open>C5. Resuming a suspended \<open>formDidSubmit\<close>: the continuation is removed, its
  outcome goes to \<open>submitDidCatch\<close> (or to \<open>console.error\<close> when that hook is
  absent), \<open>formDidFinally\<close> is called, and \<open>submitting\<close> is false afterwards.
  The snapshot both hooks receive is the one taken when the submission started, in which
  \<open>submitting\<close> is still true.\<close>

theorem resume_submit_outcome:
  assumes reach: "reachable cfg w" and mnt: "mounted w" and i: "i < length (tasks w)"
    and t: "tasks w ! i = AwaitSubmit r caught" and st: "step cfg (Resume i) w = Some w'"
  shows "\<not> submitting (cells w') \<and> self_submitting r
    \<and> filter is_submit_call (calls w') = filter is_submit_call (calls w) @ finish_calls cfg r caught
    \<and> tasks w' = take i (tasks w) @ drop (Suc i) (tasks w) \<and> unhandled w' = unhandled w"
proof -
  let ?w = "w\<lparr>tasks := take i (tasks w) @ drop (Suc i) (tasks w)\<rparr>"
  let ?wz = "submit_catch_finally cfg r caught ?w"
  note rw = resume_world [OF reach i st]
  have res: "settle settle_fuel cfg ?wz = Some w'" using rw(1) t by simp
  have fr: "keeps_frame ?w ?wz" by (rule keeps_frame_catch_finally)
  have sync: "deps_synced ?wz" using rw(3) fr by (simp add: keeps_frame_def deps_synced_def)
  have m0: "mounted ?wz" using mnt fr by (simp add: keeps_frame_def)
  have c0: "calls ?wz = calls w @ finish_calls cfg r caught" "queue ?wz = [UpdSubmitting False]"
    "tasks ?wz = take i (tasks w) @ drop (Suc i) (tasks w)" "unhandled ?wz = unhandled w"
    using calls_catch_finally [of cfg r caught ?w] rw(2) by simp_all
  from settle_stop [OF sync m0 c0(2) res] c0 rw(4) t show ?thesis by simp
qed

text \<open>C8. Resuming a configured \<open>shouldFormSubmit\<close> that resolved to false stops the
  submission: \<open>submitting\<close> is false afterwards and neither \<open>formDidSubmit\<close>,
  \<open>submitDidCatch\<close> nor \<open>formDidFinally\<close> is called.\<close>

theorem resume_gate_rejected:
  assumes reach: "reachable cfg w" and mnt: "mounted w" and i: "i < length (tasks w)"
    and t: "tasks w ! i = AwaitGate r False" and st: "step cfg (Resume i) w = Some w'"
  shows "\<not> submitting (cells w')
    \<and> filter is_submit_call (calls w') = filter is_submit_call (calls w)
    \<and> tasks w' = take i (tasks w) @ drop (Suc i) (tasks w) \<and> unhandled w' = unhandled w"
proof -
  let ?w = "w\<lparr>tasks := take i (tasks w) @ drop (Suc i) (tasks w)\<rparr>"
  let ?wz = "enqueue [UpdSubmitting False] ?w"
  note rw = resume_world [OF reach i st]
  have res: "settle settle_fuel cfg ?wz = Some w'" using rw(1) t by (simp add: submit_after_gate_def)
  have sync: "deps_synced ?wz" using rw(3) by (simp add: enqueue_def deps_synced_def)
  have m0: "mounted ?wz" using mnt by (simp add: enqueue_def)
  have q0: "queue ?wz = [UpdSubmitting False]" using rw(2) by (simp add: enqueue_def)
  from settle_stop [OF sync m0 q0 res] show ?thesis by (simp add: enqueue_def)
qed

lemma cfg_reject_run:
  "map_option (\<lambda>w. (mounted w, tasks w = [AwaitSubmit (rendered w) (Some (JStr ''boom''))],
                    filter is_submit_call (calls w) = [FormDidSubmit (rendered w)]))
     (run cfg_reject [Ui Submit] (mount cfg_reject)) = Some (True, True, True)"
  by code_simp

theorem resume_submit_outcome_witness:
  "\<exists>w1 w'. run cfg_reject [Ui Submit] (mount cfg_reject) = Some w1
     \<and> step cfg_reject (Resume 0) w1 = Some w' \<and> \<not> submitting (cells w')
     \<and> self_submitting (rendered w1)
     \<and> filter is_submit_call (calls w') =
         [FormDidSubmit (rendered w1), ConsoleError (JStr ''boom''), FormDidFinally (rendered w1)]"
proof -
  obtain w1 where r1: "run cfg_reject [Ui Submit] (mount cfg_reject) = Some w1"
    and m: "mounted w1" and t: "tasks w1 = [AwaitSubmit (rendered w1) (Some (JStr ''boom''))]"
    and c: "filter is_submit_call (calls w1) = [FormDidSubmit (rendered w1)]"
    using cfg_reject_run by (auto split: option.splits)
  have reach: "reachable cfg_reject w1" using reachable_run [OF r1 reachable.init] .
  have "enabled (Resume 0) w1" using t by (simp add: enabled_def)
  then obtain w' where st: "step cfg_reject (Resume 0) w1 = Some w'" using step_total by blast
  from resume_submit_outcome [OF reach m _ _ st] t c
  have "\<not> submitting (cells w') \<and> self_submitting (rendered w1)
     \<and> filter is_submit_call (calls w') =
         [FormDidSubmit (rendered w1), ConsoleError (JStr ''boom''), FormDidFinally (rendered w1)]"
    by (simp add: finish_calls_def cfg_reject_def plain_config_def)
  with r1 st show ?thesis by blast
qed

lemma onSubmit_outcome:
  "tasks (onSubmit cfg r w) \<noteq> [] \<or> unhandled (onSubmit cfg r w) \<noteq> []
   \<or> UpdSubmitting False \<in> set (queue (onSubmit cfg r w))"
  using calls_catch_finally [of cfg r _ w] calls_catch_finally [of cfg r _ "w\<lparr>calls := calls w @ [FormDidSubmit r]\<rparr>"]
  by (auto simp: onSubmit_def submit_after_gate_def enqueue_def Let_def
      split: option.split sum.split submit_result.split)

lemma run_task_outcome:
  "queue w = [] \<Longrightarrow>
   queue (run_task cfg t w) = [UpdSubmitting False] \<or> tasks (run_task cfg t w) \<noteq> []"
  using calls_catch_finally [of cfg _ _ w] calls_catch_finally [of cfg _ _ "w\<lparr>calls := calls w @ [FormDidSubmit _]\<rparr>"]
  by (cases t) (auto simp: submit_after_gate_def enqueue_def Let_def
      split: option.split submit_result.split)

lemma apply_effect_updates_stop:
  "list_all effect_update q \<Longrightarrow> UpdSubmitting False \<in> set q \<Longrightarrow>
   \<not> submitting (apply_updates dv s q)"
proof (induction q arbitrary: s)
  case Nil
  then show ?case by simp
next
  case (Cons u q)
  show ?case
  proof (cases "UpdSubmitting False \<in> set q")
    case True
    with Cons show ?thesis by simp
  next
    case False
    with Cons.prems have u: "u = UpdSubmitting False" by auto
    have "list_all effect_update q" using Cons.prems by simp
    from apply_effect_updates [OF this, of dv "apply_update dv s u"] u show ?thesis by auto
  qed
qed

lemma mounted_settle: "settle n cfg w = Some w' \<Longrightarrow> mounted w' = mounted w"
proof (induction n cfg w rule: settle.induct)
  case (1 cfg w)
  then show ?case by simp
next
  case (2 n cfg w)
  then show ?case by (auto simp: Let_def split: if_splits)
qed

lemma settle_start:
  assumes sync: "deps_synced w" and ns: "\<not> submitting (cells w)"
    and res: "settle settle_fuel cfg w = Some w'" and sub: "submitting (cells w')"
  shows "tasks w' \<noteq> [] \<or> unhandled w' \<noteq> []"
proof -
  let ?s' = "apply_updates (defaultValues cfg) (cells w) (queue w)"
  let ?w1 = "w\<lparr>cells := ?s', queue := []\<rparr>"
  let ?wd = "didChange_effect cfg (render cfg ?w1)"
  let ?w2 = "run_effects cfg (render cfg ?w1)"
  have go: "queue w \<noteq> [] \<and> mounted w \<and> cells_differ (cells w) ?s'"
  proof (rule ccontr)
    assume "\<not> ?thesis"
    then have "cells w' = cells w \<or> cells w' = ?s' \<and> \<not> cells_differ (cells w) ?s'"
      using res by (auto simp: settle_fuel_def numeral_3_eq_3 Let_def split: if_splits)
    then show False using ns sub by (auto simp: cells_differ_def)
  qed
  then have res2: "settle (Suc (Suc 0)) cfg ?w2 = Some w'"
    using res by (simp add: settle_fuel_def numeral_3_eq_3 Let_def)
  have eff2: "list_all effect_update (queue ?w2)" by (rule queue_run_effects) simp
  have m2: "mounted ?w2" using go by simp
  from settle_round2_calls [OF run_effects_synced eff2 m2 res2]
  have c': "cells w' = apply_updates (defaultValues cfg) ?s' (queue ?w2)"
    by (simp add: run_effects_def)
  have g: "grows ?w2 w'" using res2 by (rule grows_settle)
  have sub1: "submitting ?s'"
    using c' sub apply_effect_updates [OF eff2, of "defaultValues cfg" ?s'] by auto
  let ?v = "?wd\<lparr>dep_submitting := submitting (cells ?wd), dep_formErrorsId := formErrorsId (cells ?wd)\<rparr>"
  have "dep_submitting ?wd = False"
    using sync ns didChange_effect_synced [of cfg "render cfg ?w1"]
    by (simp add: didChange_effect_def deps_synced_def keeps_frame_def
        keeps_frame_didChange_body [THEN keeps_frame_def [THEN iffD1]] split: if_splits)
  then have w2: "?w2 = onSubmit cfg (rendered ?wd) ?v"
    using sub1 by (simp add: run_effects_def submit_effect_def submit_body_def)
  have "tasks ?w2 \<noteq> [] \<or> unhandled ?w2 \<noteq> [] \<or> UpdSubmitting False \<in> set (queue ?w2)"
    unfolding w2 by (rule onSubmit_outcome)
  then show ?thesis
    using g c' sub apply_effect_updates_stop [OF eff2, of "defaultValues cfg" ?s']
    by (auto simp: grows_def)
qed

lemma in_flight_step:
  assumes reach: "reachable cfg w" and inv: "in_flight w" and st: "step cfg a w = Some w'"
  shows "in_flight w'"
proof (cases a)
  case (Ui e)
  let ?w0 = "ui_handler cfg e w"
  from Ui st have mnt: "mounted w" and res: "settle settle_fuel cfg ?w0 = Some w'"
    by (simp_all split: if_splits)
  have pre: "deps_synced ?w0" "cells ?w0 = cells w"
    using settled_pre [OF settled_invariant [OF reach] keeps_state_ui_handler [of w cfg e]]
      keeps_state_ui_handler [of w cfg e] by (simp_all add: keeps_state_def)
  have g: "grows ?w0 w'" using res by (rule grows_settle)
  show ?thesis
  proof (cases "submitting (cells w)")
    case True
    with inv mnt have "tasks w \<noteq> [] \<or> unhandled w \<noteq> []" by (simp add: in_flight_def)
    with g show ?thesis by (auto simp: in_flight_def grows_def)
  next
    case False
    with pre settle_start [OF pre(1) _ res] show ?thesis by (simp add: in_flight_def)
  qed
next
  case (Resume i)
  let ?w = "w\<lparr>tasks := take i (tasks w) @ drop (Suc i) (tasks w)\<rparr>"
  let ?wz = "run_task cfg (tasks w ! i) ?w"
  from Resume st have i: "i < length (tasks w)" by (simp split: if_splits)
  note rw = resume_world [OF reach i st [unfolded Resume]]
  have fr: "keeps_state ?w ?wz" by (rule keeps_state_run_task)
  have sync: "deps_synced ?wz" using rw(3) fr by (simp add: keeps_state_def deps_synced_def)
  have "queue ?w = []" using rw(2) by simp
  then consider (stop) "queue ?wz = [UpdSubmitting False]" | (wait) "tasks ?wz \<noteq> []"
    using run_task_outcome by blast
  then show ?thesis
  proof cases
    case stop
    show ?thesis
    proof (cases "mounted ?wz")
      case True
      from settle_stop [OF sync True stop rw(1)] show ?thesis by (simp add: in_flight_def)
    next
      case False
      then show ?thesis using mounted_settle [OF rw(1)] by (simp add: in_flight_def)
    qed
  next
    case wait
    with grows_settle [OF rw(1)] show ?thesis by (auto simp: in_flight_def grows_def)
  qed
qed

lemma reachable_in_flight: "reachable cfg w \<Longrightarrow> in_flight w"
proof (induction rule: reachable.induct)
  case init
  show ?case using mount_facts [of cfg] by (simp add: in_flight_def init_form_state_def)
next
  case (step w a w')
  then show ?case using in_flight_step by blast
qed

text \<open>C3. The submission invariant: in every reachable mounted state where \<open>submitting\<close>
  is true, a suspended \<open>_onSubmit\<close> is pending or a \<open>shouldFormSubmit\<close> promise has
  rejected unhandled. So \<open>submitting\<close> only stays set for a submission in flight, except
  after a rejected gate.\<close>

theorem submitting_in_flight:
  "reachable cfg w \<Longrightarrow> mounted w \<Longrightarrow> submitting (cells w) \<Longrightarrow> tasks w \<noteq> [] \<or> unhandled w \<noteq> []"
  using reachable_in_flight by (simp add: in_flight_def)

lemma cfg_reject_run2:
  "map_option (\<lambda>w. (mounted w, submitting (cells w), tasks w \<noteq> []))
     (run cfg_reject [Ui Submit] (mount cfg_reject)) = Some (True, True, True)"
  by code_simp

theorem submitting_in_flight_witness:
  "\<exists>w. run cfg_reject [Ui Submit] (mount cfg_reject) = Some w
     \<and> mounted w \<and> submitting (cells w) \<and> (tasks w \<noteq> [] \<or> unhandled w \<noteq> [])"
proof -
  obtain w where r: "run cfg_reject [Ui Submit] (mount cfg_reject) = Some w"
    and m: "mounted w" and sb: "submitting (cells w)"
    using cfg_reject_run2 by (auto split: option.splits)
  have "reachable cfg_reject w" using reachable_run [OF r reachable.init] .
  from submitting_in_flight [OF this m sb] r m sb show ?thesis by blast
qed

lemma settle_round2_quiet:
  assumes sync: "deps_synced w" and eff: "list_all effect_update (queue w)" and mnt: "mounted w"
    and res: "settle (Suc (Suc n)) cfg w = Some w'"
  shows "cells w' = apply_updates (defaultValues cfg) (cells w) (queue w)
    \<and> tasks w' = tasks w \<and> unhandled w' = unhandled w
    \<and> filter is_submit_call (calls w') = filter is_submit_call (calls w)"
proof (cases "queue w = []")
  case True
  with res show ?thesis by simp
next
  case False
  define s' where "s' = apply_updates (defaultValues cfg) (cells w) (queue w)"
  define w1 where "w1 = w\<lparr>cells := s', queue := []\<rparr>"
  have s': "formValues s' = formValues (cells w)" "formErrorsId s' = formErrorsId (cells w)"
    "fieldChanged s' = fieldChanged (cells w) \<or> fieldChanged s' = None"
    "submitting s' = submitting (cells w) \<or> \<not> submitting s'"
    using apply_effect_updates [OF eff, of "defaultValues cfg" "cells w"] by (simp_all add: s'_def)
  have cv: "fieldChanged s' = fieldChanged (cells w) \<Longrightarrow> changed_value s' = changed_value (cells w)"
    using s'(1) by (simp add: changed_value_def)
  show ?thesis
  proof (cases "cells_differ (cells w) s'")
    case False
    with res \<open>queue w \<noteq> []\<close> mnt have "w' = w1"
      by (simp add: Let_def s'_def [symmetric] w1_def)
    then show ?thesis by (simp add: w1_def s'_def)
  next
    case True
    let ?w2 = "render cfg w1"
    have dc: "calls (didChange_effect cfg ?w2) = calls ?w2"
    proof (cases "dep_fieldChanged ?w2 = fieldChanged (cells ?w2)
         \<and> js_strict_eq (dep_changedValue ?w2) (changed_value (cells ?w2))")
      case True
      then show ?thesis by (simp add: didChange_effect_def)
    next
      case nf: False
      with sync cv s'(3) have "fieldChanged s' = None"
        by (auto simp: w1_def deps_synced_def)
      with nf show ?thesis by (simp add: didChange_effect_def didChange_body_def w1_def)
    qed
    let ?w3 = "didChange_effect cfg ?w2"
    have d1: "dep_submitting ?w3 = submitting (cells w)" "dep_formErrorsId ?w3 = formErrorsId (cells w)"
      "cells ?w3 = s'"
      using didChange_effect_synced [of cfg ?w2] sync by (simp_all add: w1_def deps_synced_def)
    have se: "calls (submit_effect cfg ?w3) = calls ?w3 \<and> tasks (submit_effect cfg ?w3) = tasks ?w3
        \<and> unhandled (submit_effect cfg ?w3) = unhandled ?w3"
      using d1 s'(2,4) by (auto simp: submit_effect_def submit_body_def)
    have q1: "queue ?w3 = []"
      using sync s'(3) cv by (intro didChange_effect_quiet) (auto simp: w1_def deps_synced_def)
    have q: "queue (run_effects cfg ?w2) = []"
      unfolding run_effects_def using q1 d1 s'(2,4) by (intro submit_effect_quiet) auto
    with True res \<open>queue w \<noteq> []\<close> mnt have "w' = run_effects cfg ?w2"
      by (simp add: Let_def s'_def [symmetric] w1_def [symmetric])
    with dc se show ?thesis
      by (simp add: run_effects_def w1_def s'_def render_def call_if_def Let_def)
  qed
qed

lemma settle_submit_round:
  assumes sync: "deps_synced w" and mnt: "mounted w" and ns: "\<not> submitting (cells w)"
    and s1: "submitting (apply_updates (defaultValues cfg) (cells w) (queue w))"
      "fieldChanged (apply_updates (defaultValues cfg) (cells w) (queue w)) = fieldChanged (cells w)"
      "formValues (apply_updates (defaultValues cfg) (cells w) (queue w)) = formValues (cells w)"
    and res: "settle settle_fuel cfg w = Some w'"
  shows "\<exists>v. settle (Suc (Suc 0)) cfg
              (onSubmit cfg (form_self_of (defaultValues cfg) (apply_updates (defaultValues cfg) (cells w) (queue w))) v)
            = Some w'
      \<and> deps_synced v \<and> mounted v \<and> queue v = []
      \<and> cells v = apply_updates (defaultValues cfg) (cells w) (queue w)
      \<and> tasks v = tasks w \<and> unhandled v = unhandled w
      \<and> filter is_submit_call (calls v) = filter is_submit_call (calls w)"
proof -
  let ?s1 = "apply_updates (defaultValues cfg) (cells w) (queue w)"
  let ?w1 = "w\<lparr>cells := ?s1, queue := []\<rparr>"
  let ?wr = "render cfg ?w1"
  let ?v = "?wr\<lparr>dep_submitting := True, dep_formErrorsId := formErrorsId ?s1\<rparr>"
  have qne: "queue w \<noteq> []" using ns s1(1) by auto
  have differ: "cells_differ (cells w) ?s1" using ns s1(1) by (auto simp: cells_differ_def)
  have dc: "didChange_effect cfg ?wr = ?wr"
    using sync s1(2,3) by (simp add: didChange_effect_def deps_synced_def changed_value_def)
  have se: "submit_effect cfg ?wr = onSubmit cfg (form_self_of (defaultValues cfg) ?s1) ?v"
    using sync ns s1(1) by (simp add: submit_effect_def submit_body_def deps_synced_def)
  have "settle (Suc (Suc 0)) cfg (onSubmit cfg (form_self_of (defaultValues cfg) ?s1) ?v) = Some w'"
    using res qne mnt differ dc se
    by (simp add: settle_fuel_def numeral_3_eq_3 Let_def run_effects_def)
  moreover have "deps_synced ?v"
    using sync s1 by (simp add: deps_synced_def changed_value_def)
  moreover have "filter is_submit_call (calls ?v) = filter is_submit_call (calls w)"
    by (simp add: render_def call_if_def Let_def)
  ultimately show ?thesis using mnt by (intro exI [of _ ?v]) simp
qed

lemma after_gate_passed:
  "calls (submit_after_gate cfg r True w) = calls w @ passed_calls cfg r
   \<and> tasks (submit_after_gate cfg r True w) = tasks w @ passed_tasks cfg r
   \<and> unhandled (submit_after_gate cfg r True w) = unhandled w
   \<and> queue (submit_after_gate cfg r True w) =
       queue w @ (if passed_tasks cfg r = [] then [UpdSubmitting False] else [])"
  using calls_catch_finally [of cfg r _ w]
    calls_catch_finally [of cfg r _ "w\<lparr>calls := calls w @ [FormDidSubmit r]\<rparr>"]
  by (auto simp: submit_after_gate_def passed_calls_def passed_tasks_def Let_def
      split: option.split submit_result.split)

lemma passed_calls_submit [simp]: "filter is_submit_call (passed_calls cfg r) = passed_calls cfg r"
  by (simp add: passed_calls_def split: option.split submit_result.split)

lemma settle_after_gate:
  assumes sync: "deps_synced v" and mnt: "mounted v" and q: "queue v = []"
    and res: "settle (Suc (Suc 0)) cfg (submit_after_gate cfg r ok v) = Some w'"
  shows "filter is_submit_call (calls w') = filter is_submit_call (calls v) @ (if ok then passed_calls cfg r else [])
    \<and> tasks w' = tasks v @ (if ok then passed_tasks cfg r else []) \<and> unhandled w' = unhandled v
    \<and> submitting (cells w') = (submitting (cells v) \<and> ok \<and> passed_tasks cfg r \<noteq> [])"
proof -
  let ?u = "submit_after_gate cfg r ok v"
  have fr: "keeps_frame v ?u" by (rule keeps_frame_after_gate)
  have sync': "deps_synced ?u" using sync fr by (simp add: keeps_frame_def deps_synced_def)
  have m': "mounted ?u" using mnt fr by (simp add: keeps_frame_def)
  have eff: "list_all effect_update (queue ?u)"
    using queue_submit_after_gate [of cfg r ok v] q by (auto simp: effect_update_def)
  note r2 = settle_round2_quiet [OF sync' eff m' res]
  show ?thesis
  proof (cases ok)
    case True
    then show ?thesis using r2 after_gate_passed [of cfg r v] q fr
      by (simp add: keeps_frame_def)
  next
    case False
    then show ?thesis using r2 q by (simp add: submit_after_gate_def enqueue_def)
  qed
qed

lemma clear_rendered_errors:
  "\<not> hasErrors (formErrors (apply_updates dv s (clearAllErrors (formErrors s))))"
proof -
  have "formErrors (apply_updates dv s (clearAllErrors (formErrors s))) =
          foldl (\<lambda>acc k. AList.update k JNull acc) (formErrors s) (obj_keys (formErrors s))"
    unfolding clearAllErrors_def by (rule errors_apply_null_updates)
  with keys_fold_null_set [of "formErrors s" "obj_keys (formErrors s)"] show ?thesis
    by (auto simp: hasErrors_iff js_get_fold_null)
qed

lemma clear_updates_shape:
  "\<forall>u \<in> set (clearAllErrors fe). \<exists>k v. u = UpdFormErrors_Field k v"
  by (auto simp: clearAllErrors_def setError_def)

lemma submit_step_round:
  assumes reach: "reachable cfg w" and mnt: "mounted w" and ns: "\<not> submitting (cells w)"
    and no: "\<not> has_formOnSubmit cfg" and st: "step cfg (Ui Submit) w = Some w'"
  shows "\<exists>v. settle (Suc (Suc 0)) cfg (onSubmit cfg (form_self_of (defaultValues cfg) (cells v)) v) = Some w'
      \<and> deps_synced v \<and> mounted v \<and> queue v = [] \<and> submitting (cells v)
      \<and> \<not> hasErrors (formErrors (cells v)) \<and> formValues (cells v) = formValues (cells w)
      \<and> tasks v = tasks w \<and> unhandled v = unhandled w
      \<and> filter is_submit_call (calls v) = filter is_submit_call (calls w)"
proof -
  have stw: "settled cfg w" by (rule settled_invariant [OF reach])
  let ?q = "UpdSubmitting True # clearAllErrors (formErrors (cells w))"
  let ?w0 = "enqueue ?q w"
  let ?s1 = "apply_updates (defaultValues cfg) (cells w) ?q"
  have res: "settle settle_fuel cfg ?w0 = Some w'"
    using st mnt no stw by (simp add: handleSubmit_def enqueue_def settled_def Let_def)
  have fr1: "formValues ?s1 = formValues (cells w) \<and> submitting ?s1 \<and> fieldChanged ?s1 = fieldChanged (cells w)"
    using apply_error_updates_frame [OF clear_updates_shape, of "defaultValues cfg"
        "apply_update (defaultValues cfg) (cells w) (UpdSubmitting True)"] by simp
  have ne: "\<not> hasErrors (formErrors ?s1)"
    using clear_rendered_errors [of "defaultValues cfg" "(cells w)\<lparr>submitting := True\<rparr>"] by simp
  have q0: "queue ?w0 = ?q" using stw by (simp add: enqueue_def settled_def)
  have sync0: "deps_synced ?w0" using stw by (simp add: enqueue_def settled_def deps_synced_def)
  have c0: "cells ?w0 = cells w" "mounted ?w0" "\<not> submitting (cells ?w0)" "tasks ?w0 = tasks w"
    "unhandled ?w0 = unhandled w" "calls ?w0 = calls w"
    using mnt ns by (simp_all add: enqueue_def)
  have s1: "submitting (apply_updates (defaultValues cfg) (cells ?w0) (queue ?w0))"
    "fieldChanged (apply_updates (defaultValues cfg) (cells ?w0) (queue ?w0)) = fieldChanged (cells ?w0)"
    "formValues (apply_updates (defaultValues cfg) (cells ?w0) (queue ?w0)) = formValues (cells ?w0)"
    using fr1 unfolding q0 c0(1) by simp_all
  obtain v where v: "settle (Suc (Suc 0)) cfg (onSubmit cfg (form_self_of (defaultValues cfg) ?s1) v) = Some w'"
      "deps_synced v" "mounted v" "queue v = []" "cells v = ?s1" "tasks v = tasks w"
      "unhandled v = unhandled w" "filter is_submit_call (calls v) = filter is_submit_call (calls w)"
    using settle_submit_round [OF sync0 c0(2,3) s1 res] unfolding q0 c0 by blast
  then show ?thesis using fr1 ne by (intro exI [of _ v]) simp
qed

lemma didChange_effect_frame:
  "filter is_submit_call (calls (didChange_effect cfg w)) = filter is_submit_call (calls w)
   \<and> tasks (didChange_effect cfg w) = tasks w \<and> unhandled (didChange_effect cfg w) = unhandled w
   \<and> rendered (didChange_effect cfg w) = rendered w \<and> mounted (didChange_effect cfg w) = mounted w"
  by (simp add: didChange_effect_def didChange_body_def call_if_def enqueue_def split: option.split)

lemma render_frame:
  "filter is_submit_call (calls (render cfg w)) = filter is_submit_call (calls w)
   \<and> tasks (render cfg w) = tasks w \<and> unhandled (render cfg w) = unhandled w
   \<and> rendered (render cfg w) = form_self_of (defaultValues cfg) (cells w)"
  by (simp add: render_def call_if_def Let_def)

text \<open>C4. Submitting without overrides: from an idle reachable state, the submit step
  clears every error of the rendered closure before \<open>_onSubmit\<close> runs, so the default
  gate \<open>!hasErrors\<close> always lets the submission through, whatever errors the form
  showed: \<open>formDidSubmit\<close> is called with a snapshot that has no error, is submitting and
  holds the current values; a synchronous failure (or a missing \<open>formDidSubmit\<close>) is
  caught at once and resets \<open>submitting\<close>, otherwise the call stays suspended.\<close>

theorem submit_default_gate:
  assumes reach: "reachable cfg w" and mnt: "mounted w" and ns: "\<not> submitting (cells w)"
    and no: "\<not> has_formOnSubmit cfg" and g: "shouldFormSubmit cfg = None"
    and st: "step cfg (Ui Submit) w = Some w'"
  shows "\<exists>r. self_submitting r \<and> \<not> self_hasErrors r \<and> self_formValues r = formValues (cells w)
    \<and> filter is_submit_call (calls w') = filter is_submit_call (calls w) @ passed_calls cfg r
    \<and> tasks w' = tasks w @ passed_tasks cfg r
    \<and> submitting (cells w') = (passed_tasks cfg r \<noteq> [])"
proof -
  obtain v where v: "settle (Suc (Suc 0)) cfg (onSubmit cfg (form_self_of (defaultValues cfg) (cells v)) v) = Some w'"
      "deps_synced v" "mounted v" "queue v = []" "submitting (cells v)"
      "\<not> hasErrors (formErrors (cells v))" "formValues (cells v) = formValues (cells w)"
      "tasks v = tasks w" "filter is_submit_call (calls v) = filter is_submit_call (calls w)"
    using submit_step_round [OF reach mnt ns no st] by blast
  let ?r = "form_self_of (defaultValues cfg) (cells v)"
  have "onSubmit cfg ?r v = submit_after_gate cfg ?r True v"
    using g v(6) by (simp add: onSubmit_def shouldFormSubmitDefault_def)
  with v(1) have "settle (Suc (Suc 0)) cfg (submit_after_gate cfg ?r True v) = Some w'" by (simp only:)
  from settle_after_gate [OF v(2,3,4) this] v show ?thesis
    by (intro exI [of _ ?r]) simp
qed

text \<open>C9. A \<open>formOnSubmit\<close> override does not replace the built-in submission: the
  submit step calls the override with the current snapshot marked submitting, and the
  submitting effect still runs \<open>_onSubmit\<close> with the same snapshot, whose default gate
  now sees the uncleared errors.\<close>

theorem submit_override_builtin:
  assumes reach: "reachable cfg w" and mnt: "mounted w" and ns: "\<not> submitting (cells w)"
    and ov: "has_formOnSubmit cfg" and g: "shouldFormSubmit cfg = None"
    and st: "step cfg (Ui Submit) w = Some w'"
  shows "filter is_submit_call (calls w') = filter is_submit_call (calls w)
        @ FormOnSubmit ((rendered w)\<lparr>self_submitting := True\<rparr>)
        # (if self_hasErrors (rendered w) then []
           else passed_calls cfg ((rendered w)\<lparr>self_submitting := True\<rparr>))
    \<and> tasks w' = tasks w
        @ (if self_hasErrors (rendered w) then []
           else passed_tasks cfg ((rendered w)\<lparr>self_submitting := True\<rparr>))"
proof -
  have stw: "settled cfg w" by (rule settled_invariant [OF reach])
  let ?r = "(rendered w)\<lparr>self_submitting := True\<rparr>"
  let ?w0 = "enqueue [UpdSubmitting True] w\<lparr>calls := calls w @ [FormOnSubmit ?r]\<rparr>"
  let ?s1 = "(cells w)\<lparr>submitting := True\<rparr>"
  have res: "settle settle_fuel cfg ?w0 = Some w'"
    using st mnt ov stw by (simp add: handleSubmit_def enqueue_def settled_def Let_def)
  have q0: "queue ?w0 = [UpdSubmitting True]" using stw by (simp add: enqueue_def settled_def)
  have sync0: "deps_synced ?w0" using stw by (simp add: enqueue_def settled_def deps_synced_def)
  have rr: "form_self_of (defaultValues cfg) ?s1 = ?r"
    using stw by (simp add: settled_def form_self_of_def)
  have c0: "cells ?w0 = cells w" "mounted ?w0" "\<not> submitting (cells ?w0)" "tasks ?w0 = tasks w"
    "unhandled ?w0 = unhandled w" "calls ?w0 = calls w @ [FormOnSubmit ?r]"
    using mnt ns by (simp_all add: enqueue_def)
  have s1: "submitting (apply_updates (defaultValues cfg) (cells ?w0) (queue ?w0))"
    "fieldChanged (apply_updates (defaultValues cfg) (cells ?w0) (queue ?w0)) = fieldChanged (cells ?w0)"
    "formValues (apply_updates (defaultValues cfg) (cells ?w0) (queue ?w0)) = formValues (cells ?w0)"
    unfolding q0 c0(1) by simp_all
  have ap: "apply_updates (defaultValues cfg) (cells w) [UpdSubmitting True] = ?s1" by simp
  obtain v where v: "settle (Suc (Suc 0)) cfg (onSubmit cfg ?r v) = Some w'"
      "deps_synced v" "mounted v" "queue v = []" "cells v = ?s1" "tasks v = tasks w"
      "unhandled v = unhandled w"
      "filter is_submit_call (calls v) = filter is_submit_call (calls w) @ [FormOnSubmit ?r]"
    using settle_submit_round [OF sync0 c0(2,3) s1 res] unfolding q0 c0 ap rr by simp blast
  have "onSubmit cfg ?r v = submit_after_gate cfg ?r (\<not> self_hasErrors (rendered w)) v"
    using g stw by (simp add: onSubmit_def shouldFormSubmitDefault_def settled_def)
  with v(1) have "settle (Suc (Suc 0)) cfg (submit_after_gate cfg ?r (\<not> self_hasErrors (rendered w)) v) = Some w'"
    by (simp only:)
  from settle_after_gate [OF v(2,3,4) this] v(6,8) show ?thesis by simp
qed

lemma cfg_resolve_run:
  "map_option (\<lambda>w. (mounted w, submitting (cells w), hasErrors (formErrors (cells w)),
                    filter is_submit_call (calls w)))
     (run cfg_resolve [Ui (SetErrorEv ''a'' (JStr ''bad''))] (mount cfg_resolve))
   = Some (True, False, True, [])"
  by code_simp

theorem submit_default_gate_witness:
  "\<exists>w1 w'. run cfg_resolve [Ui (SetErrorEv ''a'' (JStr ''bad''))] (mount cfg_resolve) = Some w1
     \<and> hasErrors (formErrors (cells w1)) \<and> step cfg_resolve (Ui Submit) w1 = Some w'
     \<and> submitting (cells w')
     \<and> (\<exists>r. \<not> self_hasErrors r \<and> filter is_submit_call (calls w') = [FormDidSubmit r])"
proof -
  obtain w1 where r1: "run cfg_resolve [Ui (SetErrorEv ''a'' (JStr ''bad''))] (mount cfg_resolve) = Some w1"
    and m: "mounted w1" and ns: "\<not> submitting (cells w1)" and he: "hasErrors (formErrors (cells w1))"
    and c: "filter is_submit_call (calls w1) = []"
    using cfg_resolve_run by (auto split: option.splits)
  have reach: "reachable cfg_resolve w1" using reachable_run [OF r1 reachable.init] .
  have "enabled (Ui Submit) w1" using m by (simp add: enabled_def)
  then obtain w' where st: "step cfg_resolve (Ui Submit) w1 = Some w'" using step_total by blast
  have cf: "\<not> has_formOnSubmit cfg_resolve" "shouldFormSubmit cfg_resolve = None"
    by (simp_all add: cfg_resolve_def plain_config_def)
  from submit_default_gate [OF reach m ns cf st] c
  obtain r where "\<not> self_hasErrors r" "filter is_submit_call (calls w') = [FormDidSubmit r]"
    "submitting (cells w')"
    by (auto simp: passed_calls_def passed_tasks_def cfg_resolve_def)
  with r1 he st show ?thesis by blast
qed

theorem submit_override_builtin_witness:
  "\<exists>w'. step cfg_override (Ui Submit) (mount cfg_override) = Some w'
     \<and> filter is_submit_call (calls w') =
         [FormOnSubmit ((rendered (mount cfg_override))\<lparr>self_submitting := True\<rparr>),
          FormDidSubmit ((rendered (mount cfg_override))\<lparr>self_submitting := True\<rparr>)]"
proof -
  have m: "mounted (mount cfg_override)" and ns: "\<not> submitting (cells (mount cfg_override))"
    and c: "filter is_submit_call (calls (mount cfg_override)) = []"
    and ne: "\<not> self_hasErrors (rendered (mount cfg_override))"
    by (simp_all add: mount_def Let_def didChange_body_def mount_effect_def submit_body_def
        call_if_def register_sweep_def init_form_state_def cfg_override_def cfg_resolve_def
        plain_config_def defaultFormErrors_def hasErrors_def)
  have "enabled (Ui Submit) (mount cfg_override)" using m by (simp add: enabled_def)
  then obtain w' where st: "step cfg_override (Ui Submit) (mount cfg_override) = Some w'"
    using step_total by blast
  have cf: "has_formOnSubmit cfg_override" "shouldFormSubmit cfg_override = None"
    by (simp_all add: cfg_override_def cfg_resolve_def plain_config_def)
  from submit_override_builtin [OF reachable.init m ns cf st] c ne st show ?thesis
    by (simp add: passed_calls_def cfg_override_def cfg_resolve_def)
qed

lemma cfg_gate_run:
  "map_option (\<lambda>w. (mounted w, tasks w = [AwaitGate (rendered w) False],
                    filter is_submit_call (calls w) = [ShouldFormSubmit (rendered w)]))
     (run (cfg_gate (Inr False)) [Ui Submit] (mount (cfg_gate (Inr False)))) = Some (True, True, True)"
  by code_simp

theorem resume_gate_rejected_witness:
  "\<exists>w1 w'. run (cfg_gate (Inr False)) [Ui Submit] (mount (cfg_gate (Inr False))) = Some w1
     \<and> step (cfg_gate (Inr False)) (Resume 0) w1 = Some w' \<and> \<not> submitting (cells w')
     \<and> filter is_submit_call (calls w') = [ShouldFormSubmit (rendered w1)] \<and> tasks w' = []"
proof -
  obtain w1 where r1: "run (cfg_gate (Inr False)) [Ui Submit] (mount (cfg_gate (Inr False))) = Some w1"
    and m: "mounted w1" and t: "tasks w1 = [AwaitGate (rendered w1) False]"
    and c: "filter is_submit_call (calls w1) = [ShouldFormSubmit (rendered w1)]"
    using cfg_gate_run by (auto split: option.splits)
  have reach: "reachable (cfg_gate (Inr False)) w1" using reachable_run [OF r1 reachable.init] .
  have "enabled (Resume 0) w1" using t by (simp add: enabled_def)
  then obtain w' where st: "step (cfg_gate (Inr False)) (Resume 0) w1 = Some w'" using step_total by blast
  from resume_gate_rejected [OF reach m _ _ st] t c r1 st show ?thesis by auto
qed

text \<open>C11. A \<open>shouldFormSubmit\<close> that rejects leaves the form submitting with nothing
  pending: the submit step sets \<open>submitting\<close>, the gate is called, and its rejection
  escapes \<open>_onSubmit\<close> (the await of the gate is outside its \<open>try\<close>) as an unhandled
  rejection, so no continuation is left to run the \<open>finally\<close> block and reset the flag.\<close>

theorem gate_rejection_stuck:
  assumes reach: "reachable cfg w" and mnt: "mounted w" and ns: "\<not> submitting (cells w)"
    and no: "\<not> has_formOnSubmit cfg" and g: "shouldFormSubmit cfg = Some gate"
    and rej: "\<forall>r. gate r = Inl e" and st: "step cfg (Ui Submit) w = Some w'"
  shows "submitting (cells w') \<and> tasks w' = tasks w \<and> unhandled w' = unhandled w @ [e]
    \<and> (\<exists>r. filter is_submit_call (calls w') = filter is_submit_call (calls w) @ [ShouldFormSubmit r])"
proof -
  obtain v where v: "settle (Suc (Suc 0)) cfg (onSubmit cfg (form_self_of (defaultValues cfg) (cells v)) v) = Some w'"
      "queue v = []" "submitting (cells v)"
      "tasks v = tasks w" "unhandled v = unhandled w"
      "filter is_submit_call (calls v) = filter is_submit_call (calls w)"
    using submit_step_round [OF reach mnt ns no st] by blast
  let ?r = "form_self_of (defaultValues cfg) (cells v)"
  have "onSubmit cfg ?r v = v\<lparr>calls := calls v @ [ShouldFormSubmit ?r], unhandled := unhandled v @ [e]\<rparr>"
    using g rej by (simp add: onSubmit_def Let_def)
  with v(1,2) have "w' = v\<lparr>calls := calls v @ [ShouldFormSubmit ?r], unhandled := unhandled v @ [e]\<rparr>"
    by simp
  with v show ?thesis by auto
qed

theorem gate_rejection_stuck_witness:
  "\<exists>w'. step (cfg_gate (Inl (JStr ''network''))) (Ui Submit) (mount (cfg_gate (Inl (JStr ''network'')))) = Some w'
     \<and> submitting (cells w') \<and> tasks w' = [] \<and> unhandled w' = [JStr ''network'']"
proof -
  let ?c = "cfg_gate (Inl (JStr ''network''))"
  have m: "mounted (mount ?c)" and ns: "\<not> submitting (cells (mount ?c))"
    and t: "tasks (mount ?c) = []"
    using mount_facts [of ?c] by (simp_all add: init_form_state_def)
  have u: "unhandled (mount ?c) = []"
    by (simp add: mount_def Let_def mount_effect_def didChange_body_def submit_body_def call_if_def
        init_form_state_def)
  have "enabled (Ui Submit) (mount ?c)" using m by (simp add: enabled_def)
  then obtain w' where st: "step ?c (Ui Submit) (mount ?c) = Some w'" using step_total by blast
  have cf: "\<not> has_formOnSubmit ?c" "shouldFormSubmit ?c = Some (\<lambda>r. Inl (JStr ''network''))"
    "\<forall>r. (\<lambda>r. Inl (JStr ''network'')) r = (Inl (JStr ''network'') :: jsval + bool)"
    by (simp_all add: cfg_gate_def cfg_resolve_def plain_config_def)
  from gate_rejection_stuck [OF reachable.init m ns cf st] t u st show ?thesis by auto
qed

text \<open>C10. Editing a field while a submission is in flight submits again: from a reachable
  submitting state without errors, a change through the default pipeline clears the
  field's error, which gives the error object a new identity; the submitting effect, which
  depends on that object, runs \<open>_onSubmit\<close> a second time with the new values, and the
  default gate lets it through to \<open>formDidSubmit\<close>.\<close>

theorem change_during_submit_resubmits:
  assumes reach: "reachable cfg w" and mnt: "mounted w" and sub: "submitting (cells w)"
    and no: "\<not> has_fieldOnChange cfg" and g: "shouldFormSubmit cfg = None"
    and ne: "\<not> hasErrors (formErrors (cells w))"
    and ch: "change_of e = Some (k, v)" and st: "step cfg (Ui e) w = Some w'"
  shows "\<exists>r. self_submitting r \<and> js_get (self_formValues r) k = v
    \<and> filter is_submit_call (calls w') = filter is_submit_call (calls w) @ passed_calls cfg r
    \<and> tasks w' = tasks w @ passed_tasks cfg r"
proof -
  have stw: "settled cfg w" by (rule settled_invariant [OF reach])
  have q0: "queue w = []" and sync: "deps_synced w" and fresh: "fresh_ids (cells w)"
    using stw by (simp_all add: settled_def)
  let ?q = "onFieldChangingDefault k v"
  let ?w0 = "enqueue ?q w"
  let ?s1 = "apply_updates (defaultValues cfg) (cells w) ?q"
  let ?w1 = "?w0\<lparr>cells := ?s1, queue := []\<rparr>"
  let ?wr = "render cfg ?w1"
  let ?wd = "didChange_effect cfg ?wr"
  let ?r = "form_self_of (defaultValues cfg) ?s1"
  let ?v = "?wd\<lparr>dep_submitting := True, dep_formErrorsId := formErrorsId ?s1\<rparr>"
  let ?u = "submit_after_gate cfg ?r True ?v"
  have s1: "formErrorsId ?s1 = Suc (nextObjId (cells w))" "submitting ?s1"
    "formErrors ?s1 = AList.update k JNull (formErrors (cells w))"
    "js_get (formValues ?s1) k = v"
    using sub by (simp_all add: onFieldChangingDefault_def setForm_def setError_def)
  have differ: "cells_differ (cells w) ?s1"
    using s1(1) fresh by (simp add: cells_differ_def fresh_ids_def)
  have res: "settle (Suc (Suc 0)) cfg (run_effects cfg ?wr) = Some w'"
    using st mnt change_handler [OF ch no] differ q0
    by (simp add: settle_fuel_def numeral_3_eq_3 Let_def enqueue_def onFieldChangingDefault_def)
  have dsync: "dep_fieldChanged ?wd = fieldChanged ?s1"
    "js_strict_eq (dep_changedValue ?wd) (changed_value ?s1)"
    "dep_submitting ?wd = True" "dep_formErrorsId ?wd = formErrorsId (cells w)" "cells ?wd = ?s1"
    using didChange_effect_synced [of cfg ?wr] sync sub by (simp_all add: deps_synced_def enqueue_def)
  have fd: "filter is_submit_call (calls ?wd) = filter is_submit_call (calls w)"
    "tasks ?wd = tasks w" "rendered ?wd = ?r" "mounted ?wd"
    using didChange_effect_frame [of cfg ?wr] render_frame [of cfg ?w1] mnt by (simp_all add: enqueue_def)
  have qd: "list_all effect_update (queue ?wd)"
    using queue_didChange_effect [of cfg ?wr] q0 by (auto simp: enqueue_def effect_update_def)
  have "\<not> hasErrors (formErrors ?s1)"
    using hasErrors_update_null [OF ne] s1(3) by simp
  then have eff: "run_effects cfg ?wr = ?u"
    using dsync s1 fresh fd g
    by (simp add: run_effects_def submit_effect_def submit_body_def onSubmit_def
        shouldFormSubmitDefault_def fresh_ids_def)
  have fr: "keeps_frame ?v ?u" by (rule keeps_frame_after_gate)
  have fu: "cells ?u = ?s1" "dep_fieldChanged ?u = dep_fieldChanged ?wd"
    "dep_changedValue ?u = dep_changedValue ?wd" "dep_submitting ?u = True"
    "dep_formErrorsId ?u = formErrorsId ?s1"
    using fr dsync(5) by (simp_all add: keeps_frame_def)
  have sync': "deps_synced ?u" using fu dsync(1,2) s1(2) by (simp add: deps_synced_def)
  have m': "mounted ?u" using fr fd by (simp add: keeps_frame_def)
  have eff': "list_all effect_update (queue ?u)"
    using queue_submit_after_gate [of cfg ?r True ?v] qd by (auto simp: effect_update_def)
  have res': "settle (Suc (Suc 0)) cfg ?u = Some w'" using res eff by (simp only:)
  note r2 = settle_round2_quiet [OF sync' eff' m' res']
  have ag: "calls ?u = calls ?wd @ passed_calls cfg ?r" "tasks ?u = tasks ?wd @ passed_tasks cfg ?r"
    using after_gate_passed [of cfg ?r ?v] by simp_all
  have "filter is_submit_call (calls w') = filter is_submit_call (calls w) @ passed_calls cfg ?r"
    using r2 ag(1) fd(1) by simp
  moreover have "tasks w' = tasks w @ passed_tasks cfg ?r"
    using r2 ag(2) fd(2) by simp
  ultimately have "filter is_submit_call (calls w') = filter is_submit_call (calls w) @ passed_calls cfg ?r
    \<and> tasks w' = tasks w @ passed_tasks cfg ?r" ..
  with s1 show ?thesis by (intro exI [of _ ?r]) (simp add: form_self_of_def)
qed

theorem change_during_submit_resubmits_witness:
  "\<exists>w1 w'. run cfg_resolve [Ui Submit] (mount cfg_resolve) = Some w1 \<and> submitting (cells w1)
     \<and> step cfg_resolve (Ui (Handle (OnChangeText ''a'') (JNum 5))) w1 = Some w'
     \<and> (\<exists>r. js_get (self_formValues r) ''a'' = JNum 5
            \<and> filter is_submit_call (calls w') = filter is_submit_call (calls w1) @ [FormDidSubmit r])"
proof -
  have "map_option (\<lambda>w. (mounted w, submitting (cells w), hasErrors (formErrors (cells w))))
      (run cfg_resolve [Ui Submit] (mount cfg_resolve)) = Some (True, True, False)"
    by code_simp
  then obtain w1 where r1: "run cfg_resolve [Ui Submit] (mount cfg_resolve) = Some w1"
    and m: "mounted w1" and s: "submitting (cells w1)" and ne: "\<not> hasErrors (formErrors (cells w1))"
    by (auto split: option.splits)
  have reach: "reachable cfg_resolve w1" using reachable_run [OF r1 reachable.init] .
  let ?e = "Ui (Handle (OnChangeText ''a'') (JNum 5))"
  have "enabled ?e w1" using m by (simp add: enabled_def)
  then obtain w' where st: "step cfg_resolve ?e w1 = Some w'" using step_total by blast
  have cf: "\<not> has_fieldOnChange cfg_resolve" "shouldFormSubmit cfg_resolve = None"
    by (simp_all add: cfg_resolve_def plain_config_def)
  have ch: "change_of (Handle (OnChangeText ''a'') (JNum 5)) = Some (''a'', JNum 5)"
    by (simp add: target_value_def)
  from change_during_submit_resubmits [OF reach m s cf(1) cf(2) ne ch st]
  obtain r where "js_get (self_formValues r) ''a'' = JNum 5"
    "filter is_submit_call (calls w') = filter is_submit_call (calls w1) @ [FormDidSubmit r]"
    by (auto simp: passed_calls_def cfg_resolve_def)
  with r1 s st show ?thesis by blast
qed

end
