(* ===== verification/Yup.thy ===== *)
theory Yup
  imports Stores
begin

text \<open>
  The validation adapter (\<open>src/lib/index.tsx\<close>, lines 416--444): \<open>yupToFormErrors\<close>
  flattens a Yup \<open>ValidationError\<close> into an error object keyed by path, and
  \<open>validateYupError\<close> runs a schema and returns that object, or \<open>{}\<close> when the
  values pass. A validation error is a record with a path and a message and, optionally,
  the list of inner errors (\<open>None\<close> when \<open>inner\<close> is absent; an array, even an empty
  one, is truthy). The schema itself is an external library: it is a parameter, a
  function telling whether \<open>validateSync\<close> throws, and with which error.

  The main lemma is a refinement: the fold of the source, which rebuilds the object as
  \<open>{[path]: message, ...errors}\<close> at each inner error, has the map of the reference
  "first message per path", \<^const>\<open>map_of\<close> of the list of inner errors.
\<close>

record yup_entry =
  path :: string
  message :: jsval

record yup_error = yup_entry +
  inner :: "yup_entry list option"

definition yup_step :: "jsval obj \<Rightarrow> yup_entry \<Rightarrow> jsval obj" where
  "yup_step errors err = js_spread [(path err, message err)] errors"

definition yupToFormErrors :: "yup_error \<Rightarrow> jsval obj" where
  "yupToFormErrors e =
     (case inner e of
        None \<Rightarrow> []
      | Some [] \<Rightarrow> [(path e, message e)]
      | Some errs \<Rightarrow> foldl yup_step [] errs)"

type_synonym schema = "jsval obj \<Rightarrow> yup_error option"

definition validateYupError :: "schema \<Rightarrow> jsval obj \<Rightarrow> jsval obj" where
  "validateYupError sch fv =
     (case sch fv of None \<Rightarrow> [] | Some err \<Rightarrow> yupToFormErrors err)"

definition entry_pair :: "yup_entry \<Rightarrow> string \<times> jsval" where
  "entry_pair err = (path err, message err)"

subsection \<open>Lemmas\<close>

lemma wf_yup_step [simp]: "wf_obj errors \<Longrightarrow> wf_obj (yup_step errors err)"
  by (simp add: yup_step_def)

lemma wf_fold_yup_step: "wf_obj acc \<Longrightarrow> wf_obj (foldl yup_step acc errs)"
  by (induction errs arbitrary: acc) auto

lemma map_of_yup_step:
  "wf_obj errors \<Longrightarrow> map_of (yup_step errors err) = [path err \<mapsto> message err] ++ map_of errors"
  by (simp add: yup_step_def map_of_spread map_of_rev_distinct)

lemma map_of_fold_yup_step:
  "wf_obj acc \<Longrightarrow>
   map_of (foldl yup_step acc errs) = map_of (map entry_pair errs) ++ map_of acc"
proof (induction errs arbitrary: acc)
  case Nil
  then show ?case by simp
next
  case (Cons err errs)
  have "map_of (foldl yup_step acc (err # errs)) =
          map_of (map entry_pair errs) ++ map_of (yup_step acc err)"
    using Cons.IH Cons.prems by simp
  also have "\<dots> = map_of (map entry_pair errs) ++ ([path err \<mapsto> message err] ++ map_of acc)"
    using Cons.prems by (simp add: map_of_yup_step)
  also have "\<dots> = map_of (map entry_pair (err # errs)) ++ map_of acc"
    by (simp add: entry_pair_def map_add_upd [symmetric] map_add_assoc)
  finally show ?case .
qed

lemma yup_nonempty_inner:
  "inner e = Some errs \<Longrightarrow> errs \<noteq> [] \<Longrightarrow> yupToFormErrors e = foldl yup_step [] errs"
  by (cases errs) (simp_all add: yupToFormErrors_def)

text \<open>The reference reading of the inner errors: a path maps to the message of the first
  inner error on that path.\<close>

lemma map_of_entries_find:
  "map_of (map entry_pair errs) k = map_option message (find (\<lambda>e. path e = k) errs)"
  by (induction errs) (auto simp: entry_pair_def)

lemma validateYupError_first:
  "sch fv = Some err \<Longrightarrow> inner err = Some errs \<Longrightarrow> errs \<noteq> [] \<Longrightarrow>
   map_of (validateYupError sch fv) k = map_option message (find (\<lambda>e. path e = k) errs)"
  by (simp add: validateYupError_def yup_nonempty_inner map_of_fold_yup_step map_of_entries_find)

subsection \<open>Properties of the adapter\<close>

text \<open>C33. Refinement of the validation adapter: the error object \<open>validateYupError\<close>
  returns has distinct keys, is empty when the schema accepts the values or throws an
  error without \<open>inner\<close>, holds the top-level path and message when \<open>inner\<close> is empty,
  and otherwise maps each path to the message of its \<^emph>\<open>first\<close> inner error (the
  reference \<^const>\<open>map_of\<close> of the inner errors in order).\<close>

theorem validateYupError_refines:
  "wf_obj (validateYupError sch fv)
   \<and> map_of (validateYupError sch fv) =
       (case sch fv of
          None \<Rightarrow> Map.empty
        | Some err \<Rightarrow>
            (case inner err of
               None \<Rightarrow> Map.empty
             | Some [] \<Rightarrow> [path err \<mapsto> message err]
             | Some errs \<Rightarrow> map_of (map entry_pair errs)))"
proof (cases "sch fv")
  case None
  then show ?thesis by (simp add: validateYupError_def)
next
  case (Some err)
  show ?thesis
  proof (cases "inner err")
    case None
    with Some show ?thesis by (simp add: validateYupError_def yupToFormErrors_def)
  next
    case (Some errs)
    show ?thesis
    proof (cases "errs = []")
      case True
      with \<open>sch fv = Some err\<close> Some show ?thesis
        by (simp add: validateYupError_def yupToFormErrors_def)
    next
      case False
      with Some have eq: "yupToFormErrors err = foldl yup_step [] errs"
        by (rule yup_nonempty_inner)
      have "map_of (foldl yup_step [] errs) = map_of (map entry_pair errs)"
        using map_of_fold_yup_step [of "[]" errs] by simp
      moreover have "wf_obj (foldl yup_step [] errs)"
        by (rule wf_fold_yup_step) simp
      ultimately show ?thesis
        using \<open>sch fv = Some err\<close> Some False eq
        by (simp add: validateYupError_def split: list.split)
    qed
  qed
qed

end
