(* ===== verification/Flows.thy ===== *)
theory Flows
  imports Submission Yup
begin

text \<open>
  Compositions of the components through the runtime. A binding's handler, the change
  pipeline and the next render's descriptors (\<open>src/lib/index.tsx\<close>, lines 203--351):
  what a handler writes is what the bindings show afterwards. The validation adapter feeding
  \<open>setAllErrors\<close> (lines 165--170, 416--444). \<open>resetForm\<close> as a step (lines 185--189).
  The shared lemma is \<open>step_ui_commit\<close>: a step's values and error object are those
  of the handler's batch (by \<open>ChangePipeline.settle_first_commit\<close>).
\<close>

definition schema_a :: schema where
  "schema_a fv = Some \<lparr>path = ''form'', message = JStr ''2 errors'',
                       inner = Some [\<lparr>path = ''a'', message = JStr ''required''\<rparr>,
                                     \<lparr>path = ''a'', message = JStr ''too short''\<rparr>]\<rparr>"

lemma step_ui_commit:
  assumes reach: "reachable cfg w" and st: "step cfg (Ui e) w = Some w'"
    and h: "ui_handler cfg e w = enqueue q w"
  shows "formValues (cells w') = formValues (apply_updates (defaultValues cfg) (cells w) q)
    \<and> formErrors (cells w') = formErrors (apply_updates (defaultValues cfg) (cells w) q)
    \<and> (submitting (cells w') \<longrightarrow> submitting (apply_updates (defaultValues cfg) (cells w) q))
    \<and> reachable cfg w' \<and> rendered w' = form_self_of (defaultValues cfg) (cells w')"
proof -
  have mnt: "mounted w" using st by (simp split: if_splits)
  have q0: "queue w = []" using settled_invariant [OF reach] by (simp add: settled_def)
  have res: "settle (Suc (Suc (Suc 0))) cfg (enqueue q w) = Some w'"
    using st mnt h by (simp add: settle_fuel_def numeral_3_eq_3)
  have reach': "reachable cfg w'" using reachable.step [OF reach st] .
  from settle_first_commit [of "enqueue q w", OF _ res] mnt q0 settled_invariant [OF reach']
  show ?thesis by (simp add: enqueue_def settled_def reach')
qed

text \<open>C14. Round trip between the handlers and the descriptors: after a change of field
  \<open>k\<close> to \<open>v\<close> through any binding or \<open>setFormField\<close> (no override), the next render's
  text descriptor of \<open>k\<close> shows \<open>v\<close>, its check-box descriptor is checked by \<open>v\<close>, a
  radio option of \<open>k\<close> is checked exactly when it is strictly equal to \<open>v\<close>, and the
  descriptors of every other field are unchanged.\<close>

theorem binding_roundtrip:
  assumes reach: "reachable cfg w" and no: "\<not> has_fieldOnChange cfg"
    and ch: "change_of e = Some (k, v)" and st: "step cfg (Ui e) w = Some w'"
  shows "b_prop (registerField (rendered w') k) = PropValue v
    \<and> b_prop (registerCheckBoxField (rendered w') k) = PropChecked v
    \<and> (\<forall>rv. b_prop (registerRadioField (rendered w') k rv) = PropChecked (JBool (js_strict_eq rv v)))
    \<and> (\<forall>k'. k' \<noteq> k \<longrightarrow> registerField (rendered w') k' = registerField (rendered w) k')"
proof -
  note c = step_ui_commit [OF reach st change_handler [OF ch no]]
  have fv: "formValues (cells w') = AList.update k v (formValues (cells w))"
    using c by (simp add: onFieldChangingDefault_def setForm_def setError_def)
  have rw: "rendered w = form_self_of (defaultValues cfg) (cells w)"
    using settled_invariant [OF reach] by (simp add: settled_def)
  have rw': "rendered w' = form_self_of (defaultValues cfg) (cells w')" using c by simp
  show ?thesis
    using fv rw rw'
    by (simp add: registerField_def registerCheckBoxField_def registerRadioField_def
        registerFieldDefault_def registerCheckBoxDefault_def registerRadioDefault_def)
qed

text \<open>C19. Validating the current values and passing the result to \<open>setAllErrors\<close>:
  when the schema fails with a non-empty list of inner errors, each path named by an inner
  error gets the message of the \<^emph>\<open>first\<close> inner error on that path, every other
  error and the values are left as they were.\<close>

theorem validation_to_errors:
  assumes reach: "reachable cfg w"
    and fail: "sch (formValues (cells w)) = Some err" and inn: "inner err = Some errs"
    and ne: "errs \<noteq> []"
    and st: "step cfg (Ui (SetAllErrorsEv (Some (validateYupError sch (self_formValues (rendered w)))))) w = Some w'"
  shows "(\<forall>k. js_get (formErrors (cells w')) k =
           (case find (\<lambda>e. path e = k) errs of
              Some e \<Rightarrow> message e | None \<Rightarrow> js_get (formErrors (cells w)) k))
    \<and> formValues (cells w') = formValues (cells w)"
proof -
  let ?m = "validateYupError sch (formValues (cells w))"
  have rw: "self_formValues (rendered w) = formValues (cells w)"
    using settled_invariant [OF reach] by (simp add: settled_def)
  have h: "ui_handler cfg (SetAllErrorsEv (Some ?m)) w = enqueue (setAllErrors (Some ?m)) w" by simp
  note c = step_ui_commit [OF reach st [unfolded rw] h]
  have wf: "wf_obj ?m"
    by (auto simp: validateYupError_def yupToFormErrors_def wf_fold_yup_step
        split: option.split list.split)
  have "formErrors (cells w') = js_spread (formErrors (cells w)) ?m"
    using c errors_apply_error_updates [of "defaultValues cfg" "cells w" ?m]
    by (simp add: setAllErrors_def)
  moreover have "formValues (cells w') = formValues (cells w)"
    using c apply_error_updates_frame [OF set_error_updates_shape, of "defaultValues cfg" "cells w" ?m]
    by (simp add: setAllErrors_def)
  ultimately show ?thesis
    using wf validateYupError_first [of sch "formValues (cells w)" err errs, OF fail inn ne]
    by (auto simp: js_get_spread map_of_rev_distinct split: option.split)
qed

text \<open>C20. \<open>resetForm\<close> as a step restores the default values and the default errors and
  ends \<open>submitting\<close>, but it does not cancel a pending submission: the suspended
  continuations stay, and resuming one still runs \<open>formDidSubmit\<close>'s outcome handling.\<close>

theorem reset_step:
  assumes reach: "reachable cfg w" and st: "step cfg (Ui ResetFormEv) w = Some w'"
  shows "formValues (cells w') = defaultValues cfg
    \<and> formErrors (cells w') = defaultFormErrors (defaultValues cfg)
    \<and> \<not> submitting (cells w') \<and> (\<exists>ts. tasks w' = tasks w @ ts)"
proof -
  have h: "ui_handler cfg ResetFormEv w = enqueue resetForm w" by simp
  note c = step_ui_commit [OF reach st h]
  have "settle settle_fuel cfg (ui_handler cfg ResetFormEv w) = Some w'"
    using st by (simp split: if_splits)
  from grows_settle [OF this] tasks_ui_handler [of cfg ResetFormEv w]
  have "\<exists>ts. tasks w' = tasks w @ ts" by (simp add: grows_def)
  with c show ?thesis by (simp add: resetForm_def)
qed

theorem binding_roundtrip_witness:
  "\<exists>w'. step cfg_ab (Ui (Handle (OnChangeText ''a'') (event_obj 5 6 [(''value'', JStr ''x'')])))
          (mount cfg_ab) = Some w'
     \<and> b_prop (registerField (rendered w') ''a'') = PropValue (JStr ''x'')
     \<and> b_prop (registerRadioField (rendered w') ''a'' (JStr ''x'')) = PropChecked (JBool True)"
proof -
  let ?e = "Handle (OnChangeText ''a'') (event_obj 5 6 [(''value'', JStr ''x'')])"
  have "enabled (Ui ?e) (mount cfg_ab)" using mount_facts by (simp add: enabled_def)
  then obtain w' where st: "step cfg_ab (Ui ?e) (mount cfg_ab) = Some w'" using step_total by blast
  have ch: "change_of ?e = Some (''a'', JStr ''x'')"
    by (simp add: target_value_def event_obj_def js_coalesce_def js_nullish_def)
  have no: "\<not> has_fieldOnChange cfg_ab" by (simp add: cfg_ab_def plain_config_def)
  from binding_roundtrip [OF reachable.init no ch st] st show ?thesis by simp
qed

theorem validation_to_errors_witness:
  "\<exists>w'. step cfg_ab (Ui (SetAllErrorsEv (Some (validateYupError schema_a
              (self_formValues (rendered (mount cfg_ab))))))) (mount cfg_ab) = Some w'
     \<and> js_get (formErrors (cells w')) ''a'' = JStr ''required''
     \<and> js_get (formErrors (cells w')) ''b'' = JNull"
proof -
  let ?e = "SetAllErrorsEv (Some (validateYupError schema_a (self_formValues (rendered (mount cfg_ab)))))"
  have "enabled (Ui ?e) (mount cfg_ab)" using mount_facts by (simp add: enabled_def)
  then obtain w' where st: "step cfg_ab (Ui ?e) (mount cfg_ab) = Some w'" using step_total by blast
  have c: "cells (mount cfg_ab) = init_form_state [(''a'', JNum 1), (''b'', JNum 2)]"
    using mount_facts [of cfg_ab] by (simp add: cfg_ab_def plain_config_def)
  have fail: "schema_a (formValues (cells (mount cfg_ab))) =
      Some \<lparr>path = ''form'', message = JStr ''2 errors'',
            inner = Some [\<lparr>path = ''a'', message = JStr ''required''\<rparr>,
                          \<lparr>path = ''a'', message = JStr ''too short''\<rparr>]\<rparr>"
    by (simp add: schema_a_def)
  from validation_to_errors [OF reachable.init fail _ _ st] c
  have "js_get (formErrors (cells w')) ''a'' = JStr ''required''
     \<and> js_get (formErrors (cells w')) ''b'' = JNull"
    by (simp add: init_form_state_def defaultFormErrors_def)
  with st show ?thesis by blast
qed

theorem reset_step_witness:
  "\<exists>w1 w'. run cfg_ab [Ui (SetFormFieldEv ''a'' (JNum 9))] (mount cfg_ab) = Some w1
     \<and> formValues (cells w1) = [(''a'', JNum 9), (''b'', JNum 2)]
     \<and> step cfg_ab (Ui ResetFormEv) w1 = Some w'
     \<and> formValues (cells w') = [(''a'', JNum 1), (''b'', JNum 2)] \<and> \<not> submitting (cells w')"
proof -
  have "map_option (\<lambda>w. (mounted w, formValues (cells w)))
      (run cfg_ab [Ui (SetFormFieldEv ''a'' (JNum 9))] (mount cfg_ab))
      = Some (True, [(''a'', JNum 9), (''b'', JNum 2)])"
    by code_simp
  then obtain w1 where r1: "run cfg_ab [Ui (SetFormFieldEv ''a'' (JNum 9))] (mount cfg_ab) = Some w1"
    and m: "mounted w1" and v: "formValues (cells w1) = [(''a'', JNum 9), (''b'', JNum 2)]"
    by (auto split: option.splits)
  have "enabled (Ui ResetFormEv) w1" using m by (simp add: enabled_def)
  then obtain w' where st: "step cfg_ab (Ui ResetFormEv) w1 = Some w'" using step_total by blast
  from reset_step [OF reachable_run [OF r1 reachable.init] st] r1 v st show ?thesis
    by (simp add: cfg_ab_def plain_config_def)
qed

end
