(* ===== verification/Lifecycle.thy ===== *)
theory Lifecycle
  imports Submission
begin

text \<open>
  The lifecycle dispatcher (\<open>src/lib/index.tsx\<close>, lines 330--370): \<open>formWillMount\<close> is
  called in the body of the hook, so on every render; the mount effect stores the first
  render's snapshot in the ref, runs the registration sweep and calls \<open>formDidMount\<close>;
  its cleanup calls \<open>formWillUnmount\<close> with the \<open>formSelf\<close> it closed over, the first
  render's. \<open>effects_filter\<close> is the shared lemma: the effects only make did-change and
  submission calls, so any other hook's calls are left alone by the commit loop.
\<close>

fun is_willUnmount :: "hook_call \<Rightarrow> bool" where
  "is_willUnmount (FormWillUnmount r) = True"
| "is_willUnmount _ = False"

fun is_willMount :: "hook_call \<Rightarrow> bool" where
  "is_willMount (FormWillMount r) = True"
| "is_willMount _ = False"

definition cfg_lifecycle :: config where
  "cfg_lifecycle = (plain_config [(''a'', JNum 1), (''b'', JBool False)])
     \<lparr>has_formWillMount := True, has_fieldDidRegister := True, has_formDidMount := True,
       has_formWillUnmount := True\<rparr>"

definition effect_call :: "hook_call \<Rightarrow> bool" where
  "effect_call c \<longleftrightarrow> is_didChange c \<or> is_submit_call c"

lemma effects_filter:
  assumes P: "\<And>c. effect_call c \<Longrightarrow> \<not> P c"
  shows "filter P (calls (submit_catch_finally cfg r x w)) = filter P (calls w)"
    and "filter P (calls (submit_after_gate cfg r ok w)) = filter P (calls w)"
    and "filter P (calls (onSubmit cfg r w)) = filter P (calls w)"
    and "filter P (calls (submit_effect cfg w)) = filter P (calls w)"
    and "filter P (calls (didChange_effect cfg w)) = filter P (calls w)"
    and "filter P (calls (run_effects cfg w)) = filter P (calls w)"
    and "filter P (calls (run_task cfg t w)) = filter P (calls w)"
proof -
  have fin: "filter P (finish_calls cfg r x) = []" for r x
    using P by (auto simp: finish_calls_def effect_call_def filter_empty_conv split: option.split)
  show c: "\<And>r x w. filter P (calls (submit_catch_finally cfg r x w)) = filter P (calls w)"
    using fin calls_catch_finally by simp
  have "\<not> P (FormDidSubmit r) \<and> \<not> P (ShouldFormSubmit r)" for r using P by (simp add: effect_call_def)
  then show a: "\<And>r ok w. filter P (calls (submit_after_gate cfg r ok w)) = filter P (calls w)"
    and o: "\<And>r w. filter P (calls (onSubmit cfg r w)) = filter P (calls w)"
    using c by (simp_all add: submit_after_gate_def onSubmit_def enqueue_def Let_def
        split: option.split submit_result.split sum.split)
  show s: "\<And>w. filter P (calls (submit_effect cfg w)) = filter P (calls w)"
    using o by (simp add: submit_effect_def submit_body_def)
  have "\<not> P (FieldDidChange r k v)" for r k v using P by (simp add: effect_call_def)
  then show d: "\<And>w. filter P (calls (didChange_effect cfg w)) = filter P (calls w)"
    by (simp add: didChange_effect_def didChange_body_def call_if_def enqueue_def split: option.split)
  show "filter P (calls (run_effects cfg w)) = filter P (calls w)"
    using s d by (simp add: run_effects_def)
  show "filter P (calls (run_task cfg t w)) = filter P (calls w)"
    using a c by (cases t) simp_all
qed

lemma unmounts_effects [simp]:
  "filter is_willUnmount (calls (run_effects cfg w)) = filter is_willUnmount (calls w)"
  "filter is_willUnmount (calls (render cfg w)) = filter is_willUnmount (calls w)"
  "filter is_willUnmount (calls (run_task cfg t w)) = filter is_willUnmount (calls w)"
proof -
  have u: "\<And>c. effect_call c \<Longrightarrow> \<not> is_willUnmount c"
    by (case_tac c) (simp_all add: effect_call_def)
  show "filter is_willUnmount (calls (run_effects cfg w)) = filter is_willUnmount (calls w)"
    "filter is_willUnmount (calls (run_task cfg t w)) = filter is_willUnmount (calls w)"
    using effects_filter [OF u] by simp_all
  show "filter is_willUnmount (calls (render cfg w)) = filter is_willUnmount (calls w)"
    by (simp add: render_def call_if_def Let_def)
qed

lemma willMounts_effects [simp]:
  "filter is_willMount (calls (run_effects cfg w)) = filter is_willMount (calls w)"
  "filter is_willMount (calls (run_task cfg t w)) = filter is_willMount (calls w)"
proof -
  have u: "\<And>c. effect_call c \<Longrightarrow> \<not> is_willMount c"
    by (case_tac c) (simp_all add: effect_call_def)
  show "filter is_willMount (calls (run_effects cfg w)) = filter is_willMount (calls w)"
    "filter is_willMount (calls (run_task cfg t w)) = filter is_willMount (calls w)"
    using effects_filter [OF u] by simp_all
qed

lemma unmounts_settle:
  "settle n cfg w = Some w' \<Longrightarrow> filter is_willUnmount (calls w') = filter is_willUnmount (calls w)"
proof (induction n cfg w rule: settle.induct)
  case (1 cfg w)
  then show ?case by simp
next
  case (2 n cfg w)
  then show ?case by (auto simp: Let_def split: if_splits)
qed

lemma setAllFields_frame:
  assumes P: "\<And>r k v. \<not> P (FieldOnChange r k v)"
  shows "mounted (setAllFields cfg r a w) = mounted w
    \<and> filter P (calls (setAllFields cfg r a w)) = filter P (calls w)"
  by (rule setAllFields_induct [where P = "\<lambda>x. mounted x = mounted w \<and> filter P (calls x) = filter P (calls w)"])
    (simp_all add: P changeValue_def enqueue_def)

lemma ui_handler_calls:
  assumes P: "\<And>r k v. \<not> P (FieldOnChange r k v) \<and> \<not> P (FieldOnBlur r k v) \<and> \<not> P (FormOnSubmit r)"
    and u: "e \<noteq> UnmountEv \<or> (\<forall>r. \<not> P (FormWillUnmount r))"
  shows "filter P (calls (ui_handler cfg e w)) = filter P (calls w)"
proof (cases e)
  case (Handle h raw)
  then show ?thesis using P by (cases h) (simp_all add: changeValue_def call_if_def enqueue_def)
next
  case (SetAllFieldsEv a)
  then show ?thesis using setAllFields_frame P by simp
next
  case UnmountEv
  then show ?thesis using u by (simp add: unmount_def call_if_def)
qed (use P in \<open>simp_all add: changeValue_def handleSubmit_def call_if_def enqueue_def Let_def\<close>)

lemma ui_handler_mounted: "e \<noteq> UnmountEv \<Longrightarrow> mounted (ui_handler cfg e w) = mounted w"
proof (cases e)
  case (Handle h raw)
  then show ?thesis by (cases h) (simp_all add: changeValue_def call_if_def enqueue_def)
next
  case (SetAllFieldsEv a)
  then show ?thesis using setAllFields_frame [of "\<lambda>c. False"] by simp
qed (simp_all add: changeValue_def handleSubmit_def call_if_def enqueue_def Let_def)

lemma willMounts_render:
  "filter is_willMount (calls (render cfg w)) = filter is_willMount (calls w)
     @ (if has_formWillMount cfg then [FormWillMount (form_self_of (defaultValues cfg) (cells w))] else [])"
  by (simp add: render_def call_if_def Let_def)

lemma grows_willMounts:
  "grows w w' \<Longrightarrow> length (filter is_willMount (calls w)) \<le> length (filter is_willMount (calls w'))"
  by (auto simp: grows_def)

lemma settle_change_renders:
  assumes res: "settle (Suc n) cfg w = Some w'" and fw: "has_formWillMount cfg"
    and d: "cells_differ (cells w) (cells w')"
  shows "length (filter is_willMount (calls w)) < length (filter is_willMount (calls w'))"
proof -
  let ?s' = "apply_updates (defaultValues cfg) (cells w) (queue w)"
  let ?w1 = "w\<lparr>cells := ?s', queue := []\<rparr>"
  have go: "queue w \<noteq> [] \<and> mounted w \<and> cells_differ (cells w) ?s'"
  proof (rule ccontr)
    assume "\<not> ?thesis"
    then have "cells w' = cells w \<or> cells w' = ?s' \<and> \<not> cells_differ (cells w) ?s'"
      using res by (auto simp: Let_def split: if_splits)
    then show False using d by (auto simp: cells_differ_def)
  qed
  then have r: "settle n cfg (run_effects cfg (render cfg ?w1)) = Some w'"
    using res by (simp add: Let_def)
  have "length (filter is_willMount (calls w)) < length (filter is_willMount (calls (render cfg ?w1)))"
    using fw by (simp add: willMounts_render)
  also have "\<dots> \<le> length (filter is_willMount (calls (run_effects cfg (render cfg ?w1))))"
    using grows_effects(1) by (rule grows_willMounts)
  also have "\<dots> \<le> length (filter is_willMount (calls w'))"
    using grows_settle [OF r] by (rule grows_willMounts)
  finally show ?thesis .
qed

text \<open>C25. \<open>formWillMount\<close> is not a one-time hook: every step after which a state cell
  holds a different value (a new values or error object, another \<open>submitting\<close> flag or
  change marker, compared by \<open>Object.is\<close>) re-rendered the form, and every render calls
  \<open>formWillMount\<close> again.\<close>

theorem formWillMount_every_render:
  assumes fw: "has_formWillMount cfg" and st: "step cfg a w = Some w'"
    and d: "cells_differ (cells w) (cells w')"
  shows "length (filter is_willMount (calls w)) < length (filter is_willMount (calls w'))"
proof (cases a)
  case (Ui e)
  with st have res: "settle (Suc 2) cfg (ui_handler cfg e w) = Some w'"
    by (simp add: settle_fuel_def numeral_3_eq_3 split: if_splits)
  have "filter is_willMount (calls (ui_handler cfg e w)) = filter is_willMount (calls w)"
    by (rule ui_handler_calls) simp_all
  moreover have "cells (ui_handler cfg e w) = cells w"
    using keeps_state_ui_handler [of w cfg e] by (simp add: keeps_state_def)
  ultimately show ?thesis using settle_change_renders [OF res fw] d by simp
next
  case (Resume i)
  let ?w = "w\<lparr>tasks := take i (tasks w) @ drop (Suc i) (tasks w)\<rparr>"
  from Resume st have res: "settle (Suc 2) cfg (run_task cfg (tasks w ! i) ?w) = Some w'"
    by (simp add: settle_fuel_def numeral_3_eq_3 split: if_splits)
  have "filter is_willMount (calls (run_task cfg (tasks w ! i) ?w)) = filter is_willMount (calls w)"
    by simp
  moreover have "cells (run_task cfg (tasks w ! i) ?w) = cells w"
    by (cases "tasks w ! i") simp_all
  ultimately show ?thesis using settle_change_renders [OF res fw] d by simp
qed

theorem formWillMount_every_render_witness:
  "\<exists>w'. step cfg_lifecycle (Ui (SetFormFieldEv ''a'' (JNum 9))) (mount cfg_lifecycle) = Some w'
     \<and> cells_differ (cells (mount cfg_lifecycle)) (cells w')
     \<and> length (filter is_willMount (calls (mount cfg_lifecycle))) < length (filter is_willMount (calls w'))"
proof -
  have "map_option (\<lambda>w'. cells_differ (cells (mount cfg_lifecycle)) (cells w'))
      (step cfg_lifecycle (Ui (SetFormFieldEv ''a'' (JNum 9))) (mount cfg_lifecycle)) = Some True"
    by code_simp
  then obtain w' where st: "step cfg_lifecycle (Ui (SetFormFieldEv ''a'' (JNum 9))) (mount cfg_lifecycle) = Some w'"
    and d: "cells_differ (cells (mount cfg_lifecycle)) (cells w')"
    by (auto split: option.splits)
  have fw: "has_formWillMount cfg_lifecycle" by (simp add: cfg_lifecycle_def)
  from formWillMount_every_render [OF fw st d] st d show ?thesis by blast
qed

lemma mounted_run_task: "mounted (run_task cfg t w) = mounted w"
  using keeps_frame_after_gate [of w cfg] keeps_frame_catch_finally [of w cfg]
  by (cases t) (simp_all add: keeps_frame_def)

text \<open>C24. The mount sequence: \<open>formWillMount\<close> with the first snapshot, then one
  \<open>fieldDidRegister\<close> per key of the defaults, in the order of \<open>for ... in\<close>, each with the text binding
  of that key and its default value, then \<open>formDidMount\<close> with the same snapshot.\<close>

theorem mount_sequence:
  "calls (mount cfg) =
     (if has_formWillMount cfg then [FormWillMount (mount_snapshot cfg)] else [])
     @ (if has_fieldDidRegister cfg
        then map (\<lambda>k. FieldDidRegister k (registerFieldDefault (defaultValues cfg) k)
                        (js_get (defaultValues cfg) k) (mount_snapshot cfg))
               (js_own_keys (defaultValues cfg))
        else [])
     @ (if has_formDidMount cfg then [FormDidMount (Some (mount_snapshot cfg))] else [])"
  by (simp add: mount_def Let_def mount_snapshot_def mount_effect_def register_sweep_def
      didChange_body_def submit_body_def call_if_def init_form_state_def registerField_def)

lemma mount_unmounts: "filter is_willUnmount (calls (mount cfg)) = []"
  by (simp add: mount_def Let_def mount_effect_def register_sweep_def didChange_body_def
      submit_body_def call_if_def filter_map comp_def init_form_state_def)

text \<open>C12. \<open>formWillUnmount\<close> fires exactly once per instance: never while it is mounted,
  and once after the teardown, with the snapshot of the first render (not the state at
  teardown time).\<close>

theorem unmount_once:
  "reachable cfg w \<Longrightarrow>
   filter is_willUnmount (calls w) =
     (if \<not> mounted w \<and> has_formWillUnmount cfg then [FormWillUnmount (mount_snapshot cfg)] else [])"
proof (induction rule: reachable.induct)
  case init
  show ?case using mount_unmounts [of cfg] mount_facts [of cfg] by simp
next
  case (step w a w')
  show ?case
  proof (cases a)
    case (Ui e)
    with step.hyps(2) have mnt: "mounted w" and res: "settle settle_fuel cfg (ui_handler cfg e w) = Some w'"
      by (simp_all split: if_splits)
    show ?thesis
    proof (cases "e = UnmountEv")
      case True
      have "queue w = []" using settled_invariant [OF step.hyps(1)] by (simp add: settled_def)
      then have "queue (unmount cfg w) = []" by (simp add: unmount_def call_if_def)
      then have "settle settle_fuel cfg (unmount cfg w) = Some (unmount cfg w)"
        by (simp add: settle_fuel_def numeral_3_eq_3)
      with res True have "w' = unmount cfg w" by simp
      with step.IH mnt reachable_ref [OF step.hyps(1)] show ?thesis
        by (simp add: unmount_def call_if_def)
    next
      case False
      have "filter is_willUnmount (calls (ui_handler cfg e w)) = filter is_willUnmount (calls w)"
        by (rule ui_handler_calls) (simp_all add: False)
      with step.IH mnt mounted_settle [OF res] unmounts_settle [OF res] ui_handler_mounted [OF False, of cfg w]
      show ?thesis by simp
    qed
  next
    case (Resume i)
    let ?w = "w\<lparr>tasks := take i (tasks w) @ drop (Suc i) (tasks w)\<rparr>"
    from Resume step.hyps(2)
    have res: "settle settle_fuel cfg (run_task cfg (tasks w ! i) ?w) = Some w'" by (simp split: if_splits)
    with step.IH mounted_settle [OF res] unmounts_settle [OF res] mounted_run_task [of cfg "tasks w ! i" ?w]
    show ?thesis by simp
  qed
qed

theorem unmount_once_witness:
  "\<exists>w1 w'. run cfg_lifecycle [Ui (SetFormFieldEv ''a'' (JNum 9))] (mount cfg_lifecycle) = Some w1
     \<and> step cfg_lifecycle (Ui UnmountEv) w1 = Some w'
     \<and> filter is_willUnmount (calls w') = [FormWillUnmount (mount_snapshot cfg_lifecycle)]
     \<and> self_formValues (rendered w1) \<noteq> self_formValues (mount_snapshot cfg_lifecycle)"
proof -
  have "map_option (\<lambda>w. (mounted w, self_formValues (rendered w) \<noteq> self_formValues (mount_snapshot cfg_lifecycle)))
     (run cfg_lifecycle [Ui (SetFormFieldEv ''a'' (JNum 9))] (mount cfg_lifecycle)) = Some (True, True)"
    by code_simp
  then obtain w1 where r1: "run cfg_lifecycle [Ui (SetFormFieldEv ''a'' (JNum 9))] (mount cfg_lifecycle) = Some w1"
    and m: "mounted w1" and d: "self_formValues (rendered w1) \<noteq> self_formValues (mount_snapshot cfg_lifecycle)"
    by (auto split: option.splits)
  have reach: "reachable cfg_lifecycle w1" using reachable_run [OF r1 reachable.init] .
  have "enabled (Ui UnmountEv) w1" using m by (simp add: enabled_def)
  then obtain w' where st: "step cfg_lifecycle (Ui UnmountEv) w1 = Some w'" using step_total by blast
  have reach': "reachable cfg_lifecycle w'" using reachable.step [OF reach st] .
  have "\<not> mounted w'" using st m by (auto simp: unmount_def call_if_def settle_fuel_def numeral_3_eq_3 split: if_splits)
  with unmount_once [OF reach'] r1 st d show ?thesis by (auto simp: cfg_lifecycle_def)
qed

end
