(* ===== verification/Actions.thy ===== *)
theory Actions
  imports Flows Lifecycle
begin

text \<open>
  The remaining actions of the public surface as steps (\<open>src/lib/index.tsx\<close>, lines
  172--189, 203--246, 406--412): blur, \<open>clearAllErrors\<close> and reset. \<open>queue_empty_step\<close> is
  the shared lemma: an action that queues no setter call is its own step, since nothing is
  committed and nothing renders.
\<close>

lemma queue_empty_step:
  assumes reach: "reachable cfg w" and st: "step cfg (Ui e) w = Some w'"
    and q: "queue (ui_handler cfg e w) = []"
  shows "w' = ui_handler cfg e w"
  using st q by (simp add: settle_fuel_def numeral_3_eq_3 split: if_splits)

text \<open>C22. A blur is an observation: it leaves the state and the pending submissions alone
  and only calls \<open>fieldOnBlur\<close>, when configured, with the current snapshot, the field and
  the value extracted from the event.\<close>

theorem blur_step:
  assumes reach: "reachable cfg w" and st: "step cfg (Ui (Handle (OnBlurField k) raw)) w = Some w'"
  shows "cells w' = cells w \<and> tasks w' = tasks w
    \<and> calls w' = calls w @ (if has_fieldOnBlur cfg then [FieldOnBlur (rendered w) k (target_value raw)] else [])"
proof -
  have "queue w = []" using settled_invariant [OF reach] by (simp add: settled_def)
  then have "queue (ui_handler cfg (Handle (OnBlurField k) raw) w) = []" by (simp add: call_if_def)
  from queue_empty_step [OF reach st this] show ?thesis by (simp add: call_if_def)
qed

text \<open>C21. \<open>clearAllErrors\<close> as a step: afterwards no field has an error, the error
  object has the same keys, and the values are untouched.\<close>

theorem clearAllErrors_step:
  assumes reach: "reachable cfg w" and st: "step cfg (Ui ClearAllErrorsEv) w = Some w'"
  shows "\<not> hasErrors (formErrors (cells w')) \<and> formValues (cells w') = formValues (cells w)
    \<and> obj_keys (formErrors (cells w')) = obj_keys (formErrors (cells w))"
proof -
  have rw: "self_formErrors (rendered w) = formErrors (cells w)"
    using settled_invariant [OF reach] by (simp add: settled_def)
  have h: "ui_handler cfg ClearAllErrorsEv w = enqueue (clearAllErrors (formErrors (cells w))) w"
    using rw by simp
  note c = step_ui_commit [OF reach st h]
  have e: "formErrors (apply_updates (defaultValues cfg) (cells w) (clearAllErrors (formErrors (cells w)))) =
          foldl (\<lambda>acc k. AList.update k JNull acc) (formErrors (cells w)) (obj_keys (formErrors (cells w)))"
    unfolding clearAllErrors_def by (rule errors_apply_null_updates)
  have "formValues (apply_updates (defaultValues cfg) (cells w) (clearAllErrors (formErrors (cells w))))
      = formValues (cells w)"
    using apply_error_updates_frame [OF clear_updates_shape] by blast
  with c e clear_rendered_errors [of "defaultValues cfg" "cells w"] show ?thesis
    by (simp add: keys_fold_null)
qed

lemma hasErrors_defaults: "\<not> hasErrors (defaultFormErrors dv)"
proof -
  have "js_get (defaultFormErrors dv) k = JNull" if "k \<in> set (obj_keys dv)" for k
    using that by (simp add: defaultFormErrors_def js_get_fold_null)
  then show ?thesis by (simp add: hasErrors_iff)
qed

text \<open>C23. After \<open>resetForm\<close> the next snapshot is clean: not partially dirty, no
  errors, not submitting; and it is "fully dirty" exactly when the form has no fields (the
  vacuous case the specification describes).\<close>

theorem reset_clean:
  assumes reach: "reachable cfg w" and st: "step cfg (Ui ResetFormEv) w = Some w'"
  shows "\<not> self_isSemiDirty (rendered w') \<and> \<not> self_hasErrors (rendered w')
    \<and> \<not> self_submitting (rendered w')
    \<and> (self_isDirty (rendered w') \<longleftrightarrow> defaultValues cfg = [])"
proof -
  have h: "ui_handler cfg ResetFormEv w = enqueue resetForm w" by simp
  note c = step_ui_commit [OF reach st h]
  have v: "formValues (cells w') = defaultValues cfg"
    and e: "formErrors (cells w') = defaultFormErrors (defaultValues cfg)"
    and s: "\<not> submitting (cells w')"
    using c by (simp_all add: resetForm_def)
  have r: "rendered w' = form_self_of (defaultValues cfg) (cells w')" using c by simp
  have "\<not> isSemiDirty dv dv" for dv :: "jsval obj"
    by (simp add: isSemiDirty_def list_ex_iff js_strict_eq_refl)
  moreover have "isDirty dv dv \<longleftrightarrow> dv = []" for dv :: "jsval obj"
    by (cases dv) (simp_all add: isDirty_def js_strict_eq_refl)
  ultimately show ?thesis using v e s r hasErrors_defaults by simp
qed

theorem blur_step_witness:
  "\<exists>w'. step (cfg_ab\<lparr>has_fieldOnBlur := True\<rparr>) (Ui (Handle (OnBlurField ''a'') (JStr ''x'')))
          (mount (cfg_ab\<lparr>has_fieldOnBlur := True\<rparr>)) = Some w'
     \<and> cells w' = cells (mount (cfg_ab\<lparr>has_fieldOnBlur := True\<rparr>))
     \<and> calls w' = calls (mount (cfg_ab\<lparr>has_fieldOnBlur := True\<rparr>))
         @ [FieldOnBlur (rendered (mount (cfg_ab\<lparr>has_fieldOnBlur := True\<rparr>))) ''a'' (JStr ''x'')]"
proof -
  let ?c = "cfg_ab\<lparr>has_fieldOnBlur := True\<rparr>"
  have "enabled (Ui (Handle (OnBlurField ''a'') (JStr ''x''))) (mount ?c)"
    using mount_facts by (simp add: enabled_def)
  then obtain w' where st: "step ?c (Ui (Handle (OnBlurField ''a'') (JStr ''x''))) (mount ?c) = Some w'"
    using step_total by blast
  from blur_step [OF reachable.init st] st show ?thesis by (simp add: target_value_prim)
qed

theorem clearAllErrors_step_witness:
  "\<exists>w1 w'. run cfg_resolve [Ui (SetErrorEv ''a'' (JStr ''bad''))] (mount cfg_resolve) = Some w1
     \<and> hasErrors (formErrors (cells w1))
     \<and> step cfg_resolve (Ui ClearAllErrorsEv) w1 = Some w' \<and> \<not> hasErrors (formErrors (cells w'))"
proof -
  obtain w1 where r1: "run cfg_resolve [Ui (SetErrorEv ''a'' (JStr ''bad''))] (mount cfg_resolve) = Some w1"
    and m: "mounted w1" and he: "hasErrors (formErrors (cells w1))"
    using cfg_resolve_run by (auto split: option.splits)
  have "enabled (Ui ClearAllErrorsEv) w1" using m by (simp add: enabled_def)
  then obtain w' where st: "step cfg_resolve (Ui ClearAllErrorsEv) w1 = Some w'" using step_total by blast
  from clearAllErrors_step [OF reachable_run [OF r1 reachable.init] st] r1 he st show ?thesis by blast
qed

theorem reset_clean_witness:
  "\<exists>w'. step cfg_ab (Ui ResetFormEv) (mount cfg_ab) = Some w'
     \<and> \<not> self_isSemiDirty (rendered w') \<and> \<not> self_isDirty (rendered w')"
proof -
  have "enabled (Ui ResetFormEv) (mount cfg_ab)" using mount_facts by (simp add: enabled_def)
  then obtain w' where st: "step cfg_ab (Ui ResetFormEv) (mount cfg_ab) = Some w'" using step_total by blast
  from reset_clean [OF reachable.init st] st show ?thesis by (simp add: cfg_ab_def plain_config_def)
qed

end
