(* ===== verification/Liveness.thy ===== *)
theory Liveness
  imports Submission
begin

text \<open>
  Liveness of the submission state machine (\<open>src/lib/index.tsx\<close>, lines 374--404): the
  environment settles the awaited promises one by one (the action \<open>Resume 0\<close> resumes
  the oldest suspended \<open>_onSubmit\<close>). Resuming a continuation never starts a new
  submission: it either ends one (queueing \<open>setSubmitting(false)\<close>) or, after the gate,
  suspends it at \<open>formDidSubmit\<close> (\<open>resume_first\<close>). With the weight 2 for a suspended
  gate and 1 for a suspended \<open>formDidSubmit\<close>, every resumption lowers the total weight,
  so after finitely many resumptions nothing is pending, and then the submission invariant
  of \<open>Submission\<close> gives \<open>submitting = false\<close>.
\<close>

fun task_weight :: "task \<Rightarrow> nat" where
  "task_weight (AwaitGate r ok) = 2"
| "task_weight (AwaitSubmit r caught) = 1"

lemma settle_short_queue:
  assumes sync: "deps_synced w" and q: "queue w = [] \<or> queue w = [UpdSubmitting False]"
    and res: "settle settle_fuel cfg w = Some w'"
  shows "mounted w' = mounted w \<and> tasks w' = tasks w \<and> unhandled w' = unhandled w"
proof (cases "queue w = [] \<or> \<not> mounted w")
  case True
  with res show ?thesis by (auto simp: settle_fuel_def numeral_3_eq_3 split: if_splits)
next
  case False
  with q have "queue w = [UpdSubmitting False]" "mounted w" by auto
  from settle_stop [OF sync this(2,1) res] mounted_settle [OF res] show ?thesis by simp
qed

lemma resume_first:
  assumes reach: "reachable cfg w" and t: "tasks w = t # ts"
    and st: "step cfg (Resume 0) w = Some w'"
  shows "mounted w' = mounted w \<and> unhandled w' = unhandled w
    \<and> tasks w' = ts @ (case t of AwaitGate r ok \<Rightarrow> if ok then passed_tasks cfg r else []
                               | AwaitSubmit r c \<Rightarrow> [])"
proof -
  let ?w = "w\<lparr>tasks := ts\<rparr>"
  let ?wz = "run_task cfg t ?w"
  have rw: "settle settle_fuel cfg ?wz = Some w'" "queue w = []" "deps_synced w"
    using resume_world [OF reach _ st] t by simp_all
  have sync: "deps_synced ?wz"
    using rw(3) keeps_state_run_task [of ?w cfg t] by (simp add: keeps_state_def deps_synced_def)
  have wz: "(queue ?wz = [] \<or> queue ?wz = [UpdSubmitting False]) \<and> mounted ?wz = mounted w
     \<and> unhandled ?wz = unhandled w
     \<and> tasks ?wz = ts @ (case t of AwaitGate r ok \<Rightarrow> if ok then passed_tasks cfg r else []
                                 | AwaitSubmit r c \<Rightarrow> [])"
  proof (cases t)
    case (AwaitGate r ok)
    then show ?thesis
      using rw(2) after_gate_passed [of cfg r ?w] keeps_frame_after_gate [of ?w cfg r ok]
      by (cases ok) (simp_all add: submit_after_gate_def enqueue_def keeps_frame_def)
  next
    case (AwaitSubmit r c)
    then show ?thesis
      using rw(2) calls_catch_finally [of cfg r c ?w] keeps_frame_catch_finally [of ?w cfg r c]
      by (simp add: keeps_frame_def)
  qed
  with settle_short_queue [OF sync _ rw(1)] show ?thesis by simp
qed

lemma passed_tasks_light: "sum_list (map task_weight (passed_tasks cfg r)) < 2"
  by (simp add: passed_tasks_def split: option.split submit_result.split)

lemma resume_first_progress:
  assumes reach: "reachable cfg w" and ne: "tasks w \<noteq> []"
  shows "\<exists>w'. step cfg (Resume 0) w = Some w' \<and> reachable cfg w'
    \<and> mounted w' = mounted w \<and> unhandled w' = unhandled w
    \<and> sum_list (map task_weight (tasks w')) < sum_list (map task_weight (tasks w))"
proof -
  obtain t ts where t: "tasks w = t # ts" using ne by (cases "tasks w") auto
  have "enabled (Resume 0) w" using t by (simp add: enabled_def)
  then obtain w' where st: "step cfg (Resume 0) w = Some w'" using step_total by blast
  note r = resume_first [OF reach t st]
  have "sum_list (map task_weight (tasks w')) < sum_list (map task_weight (tasks w))"
    using r t passed_tasks_light [of cfg] by (cases t) auto
  with st r reachable.step [OF reach st] show ?thesis by blast
qed

text \<open>C6. Every submission completes: from a reachable mounted state in which no gate has
  rejected, resuming the pending continuations, oldest first, empties them after finitely
  many steps, and then the form is not submitting.\<close>

theorem submission_completes:
  assumes reach: "reachable cfg w" and mnt: "mounted w" and nu: "unhandled w = []"
  shows "\<exists>n w'. run cfg (replicate n (Resume 0)) w = Some w' \<and> tasks w' = []
    \<and> \<not> submitting (cells w')"
  using reach mnt nu
proof (induction "sum_list (map task_weight (tasks w))" arbitrary: w rule: less_induct)
  case less
  show ?case
  proof (cases "tasks w = []")
    case True
    with reachable_in_flight [OF less.prems(1)] less.prems(2,3) have "\<not> submitting (cells w)"
      by (simp add: in_flight_def)
    with True show ?thesis by (intro exI [of _ 0]) simp
  next
    case False
    from resume_first_progress [OF less.prems(1) False] obtain w1 where
      w1: "step cfg (Resume 0) w = Some w1" "reachable cfg w1" "mounted w1 = mounted w"
        "unhandled w1 = unhandled w"
        "sum_list (map task_weight (tasks w1)) < sum_list (map task_weight (tasks w))"
      by blast
    from less.hyps [OF w1(5) w1(2)] w1(3,4) less.prems(2,3) obtain n w' where
      "run cfg (replicate n (Resume 0)) w1 = Some w'" "tasks w' = []" "\<not> submitting (cells w')"
      by auto
    with w1(1) show ?thesis by (intro exI [of _ "Suc n"]) auto
  qed
qed

theorem submission_completes_witness:
  "\<exists>w1. run cfg_reject [Ui Submit] (mount cfg_reject) = Some w1
     \<and> (\<exists>n w'. run cfg_reject (replicate n (Resume 0)) w1 = Some w' \<and> tasks w' = []
               \<and> \<not> submitting (cells w'))"
proof -
  have "map_option (\<lambda>w. (mounted w, unhandled w)) (run cfg_reject [Ui Submit] (mount cfg_reject))
      = Some (True, [])"
    by code_simp
  then obtain w1 where r1: "run cfg_reject [Ui Submit] (mount cfg_reject) = Some w1"
    and m: "mounted w1" and u: "unhandled w1 = []" by (auto split: option.splits)
  from submission_completes [OF reachable_run [OF r1 reachable.init] m u] r1 show ?thesis by blast
qed

end
