(* ===== verification/Shapes.thy ===== *)
theory Shapes
  imports ChangePipeline
begin

text \<open>
  The shape of the two object cells (\<open>src/lib/index.tsx\<close>, lines 125--189): as long as
  the default values have distinct keys, the values object and the error object of every
  reachable state have distinct keys, and every field of the defaults stays a key of both.
  The updates that write them (\<open>setFormState\<close>, \<open>setFormErrors\<close> with a spread, or
  the defaults) never drop a key: \<open>cells_ok_apply_updates\<close>; the commit loop only changes
  the cells by applying updates: \<open>cells_ok_settle\<close>. So \<open>formValues[k]\<close> of a default
  field \<open>k\<close>, which the bindings read, is always defined.
\<close>

definition cells_ok :: "jsval obj \<Rightarrow> form_state \<Rightarrow> bool" where
  "cells_ok dv s \<longleftrightarrow> wf_obj (formValues s) \<and> wf_obj (formErrors s)
     \<and> set (obj_keys dv) \<subseteq> set (obj_keys (formValues s))
     \<and> set (obj_keys dv) \<subseteq> set (obj_keys (formErrors s))"

lemma cells_ok_apply_updates:
  "wf_obj dv \<Longrightarrow> cells_ok dv s \<Longrightarrow> cells_ok dv (apply_updates dv s q)"
proof (induction q arbitrary: s)
  case Nil
  then show ?case by simp
next
  case (Cons u q)
  have "cells_ok dv (apply_update dv s u)"
    using Cons.prems by (cases u) (auto simp: cells_ok_def AList.dom_update)
  with Cons.IH Cons.prems(1) show ?case by simp
qed

lemma cells_ok_settle:
  "settle n cfg w = Some w' \<Longrightarrow> wf_obj (defaultValues cfg) \<Longrightarrow>
   cells_ok (defaultValues cfg) (cells w) \<Longrightarrow> cells_ok (defaultValues cfg) (cells w')"
proof (induction n cfg w rule: settle.induct)
  case (1 cfg w)
  then show ?case by simp
next
  case (2 n cfg w)
  let ?s' = "apply_updates (defaultValues cfg) (cells w) (queue w)"
  let ?w1 = "w\<lparr>cells := ?s', queue := []\<rparr>"
  have ok1: "cells_ok (defaultValues cfg) ?s'"
    using "2.prems"(2,3) by (rule cells_ok_apply_updates)
  show ?case
  proof (cases "queue w = [] \<or> \<not> mounted w \<or> \<not> cells_differ (cells w) ?s'")
    case True
    with "2.prems" ok1 show ?thesis by (auto simp: Let_def split: if_splits)
  next
    case False
    with "2.prems" have r: "settle n cfg (run_effects cfg (render cfg ?w1)) = Some w'"
      by (simp add: Let_def)
    have "cells (run_effects cfg (render cfg ?w1)) = ?s'" by (simp add: run_effects_def)
    with "2.IH" False r ok1 "2.prems"(2) show ?thesis by (simp add: Let_def)
  qed
qed

lemma cells_ok_step:
  "step cfg a w = Some w' \<Longrightarrow> wf_obj (defaultValues cfg) \<Longrightarrow>
   cells_ok (defaultValues cfg) (cells w) \<Longrightarrow> cells_ok (defaultValues cfg) (cells w')"
proof (cases a)
  case (Ui e)
  assume st: "step cfg a w = Some w'" and dv: "wf_obj (defaultValues cfg)"
    and ok: "cells_ok (defaultValues cfg) (cells w)"
  with Ui have res: "settle settle_fuel cfg (ui_handler cfg e w) = Some w'" by (simp split: if_splits)
  have "cells (ui_handler cfg e w) = cells w"
    using keeps_state_ui_handler [of w cfg e] by (simp add: keeps_state_def)
  with cells_ok_settle [OF res dv] ok show ?thesis by simp
next
  case (Resume i)
  assume st: "step cfg a w = Some w'" and dv: "wf_obj (defaultValues cfg)"
    and ok: "cells_ok (defaultValues cfg) (cells w)"
  let ?w = "w\<lparr>tasks := take i (tasks w) @ drop (Suc i) (tasks w)\<rparr>"
  from Resume st have res: "settle settle_fuel cfg (run_task cfg (tasks w ! i) ?w) = Some w'"
    by (simp split: if_splits)
  have "cells (run_task cfg (tasks w ! i) ?w) = cells w"
    using keeps_state_run_task [of ?w cfg "tasks w ! i"] by (simp add: keeps_state_def)
  with cells_ok_settle [OF res dv] ok show ?thesis by simp
qed

text \<open>C13. The shape invariant of the object cells: with defaults of distinct keys, in every
  reachable state the values object and the error object have distinct keys and contain
  every key of the defaults.\<close>

theorem reachable_cells_ok:
  assumes dv: "wf_obj (defaultValues cfg)" and reach: "reachable cfg w"
  shows "wf_obj (formValues (cells w)) \<and> wf_obj (formErrors (cells w))
    \<and> set (obj_keys (defaultValues cfg)) \<subseteq> set (obj_keys (formValues (cells w)))
    \<and> set (obj_keys (defaultValues cfg)) \<subseteq> set (obj_keys (formErrors (cells w)))"
proof -
  have "cells_ok (defaultValues cfg) (cells w)" using reach
  proof (induction rule: reachable.induct)
    case init
    show ?case using dv mount_facts [of cfg] by (simp add: cells_ok_def init_form_state_def)
  next
    case (step w a w')
    from cells_ok_step [OF step.hyps(2) dv step.IH] show ?case .
  qed
  then show ?thesis by (simp add: cells_ok_def)
qed

theorem reachable_cells_ok_witness:
  "wf_obj (defaultValues (plain_config [(''a'', JNum 1), (''b'', JNum 2)]))
   \<and> reachable (plain_config [(''a'', JNum 1), (''b'', JNum 2)]) (mount (plain_config [(''a'', JNum 1), (''b'', JNum 2)]))
   \<and> wf_obj (formValues (cells (mount (plain_config [(''a'', JNum 1), (''b'', JNum 2)]))))"
  using reachable_cells_ok [OF _ reachable.init, of "plain_config [(''a'', JNum 1), (''b'', JNum 2)]"]
  by (simp add: plain_config_def reachable.init)

end
