(* ===== verification/Refinement.thy ===== *)
theory Refinement
  imports Flows
begin

text \<open>
  The submission status against the specification's state machine (section 4.6 of the
  specification): \<open>status\<close> is the abstract state, \<open>status_of\<close> reads it off the
  \<open>submitting\<close> cell, and \<open>spec_step\<close> is the abstract machine. An action may leave
  the status alone; a submit request starts a submission; an action that ends one is a
  resumed continuation (the gate's or the submit hook's outcome) or, by the re-entrancy
  rule of the specification, an event that writes the error map while submitting (a
  reset among them). \<open>submission_refines\<close> shows that every step of a reachable
  instance is a step of the abstract machine.
\<close>

text \<open>The abstract state of section 4.6 and its reading off the cells.\<close>

datatype status = Idle | Submitting

definition status_of :: "world \<Rightarrow> status" where
  "status_of w = (if submitting (cells w) then Submitting else Idle)"

text \<open>The events whose handlers write the error map: every change (it clears the
  field's error), the error setters, reset and submit (which clears the errors); a blur
  and the unmount do not.\<close>

fun writes_errors :: "ui_event \<Rightarrow> bool" where
  "writes_errors (Handle h raw) = (case h of OnBlurField k \<Rightarrow> False | _ \<Rightarrow> True)"
| "writes_errors UnmountEv = False"
| "writes_errors e = True"

fun ends_submission :: "action \<Rightarrow> bool" where
  "ends_submission (Resume i) = True"
| "ends_submission (Ui e) = writes_errors e"

text \<open>The abstract machine.\<close>

inductive spec_step :: "action \<Rightarrow> status \<Rightarrow> status \<Rightarrow> bool" where
  stay: "spec_step a s s"
| start: "spec_step (Ui Submit) Idle Submitting"
| finish: "ends_submission a \<Longrightarrow> spec_step a Submitting Idle"

inductive_simps spec_step_iff: "spec_step a s s'"

section \<open>Simulation\<close>

lemma apply_updates_no_start:
  "\<not> submitting s \<Longrightarrow> UpdSubmitting True \<notin> set q \<Longrightarrow> \<not> submitting (apply_updates dv s q)"
proof (induction q arbitrary: s)
  case Nil
  then show ?case by simp
next
  case (Cons u q)
  then show ?case by (cases u) auto
qed

lemma settle_no_start:
  assumes res: "settle (Suc n) cfg w = Some w'" and s: "\<not> submitting (cells w)"
    and q: "UpdSubmitting True \<notin> set (queue w)"
  shows "\<not> submitting (cells w')"
proof (cases "mounted w")
  case True
  from settle_first_commit [OF True res] apply_updates_no_start [OF s q]
  show ?thesis by blast
next
  case False
  with res s show ?thesis by (auto split: if_splits)
qed

lemma run_task_no_start:
  assumes "UpdSubmitting True \<notin> set (queue w)"
  shows "UpdSubmitting True \<notin> set (queue (run_task cfg t w))"
proof (cases t)
  case (AwaitGate r ok)
  with assms show ?thesis using queue_submit_after_gate [of cfg r ok w] by auto
next
  case (AwaitSubmit r c)
  with assms show ?thesis using queue_submit_catch_finally [of cfg r c w] by auto
qed

lemma ui_handler_no_start:
  assumes "e \<noteq> Submit" and "UpdSubmitting True \<notin> set (queue w)"
  shows "UpdSubmitting True \<notin> set (queue (ui_handler cfg e w))"
proof (cases e)
  case (Handle h raw)
  with assms(2) show ?thesis
    by (cases h) (auto simp: changeValue_def enqueue_def call_if_def onFieldChangingDefault_def
        store_simps)
next
  case (SetAllFieldsEv a)
  have "UpdSubmitting True \<notin> set (queue (setAllFields cfg (first_render w) a w))"
    by (rule setAllFields_induct [where P = "\<lambda>x. UpdSubmitting True \<notin> set (queue x)"])
      (auto simp: assms(2) changeValue_def enqueue_def onFieldChangingDefault_def store_simps)
  with SetAllFieldsEv show ?thesis by simp
next
  case (SetAllErrorsEv a)
  with assms(2) show ?thesis by (auto simp: enqueue_def store_simps split: option.split)
qed (use assms in \<open>auto simp: enqueue_def unmount_def call_if_def changeValue_def
    onFieldChangingDefault_def store_simps\<close>)

lemma cells_ui_handler: "cells (ui_handler cfg e w) = cells w"
  using keeps_state_ui_handler [of w cfg e] by (simp add: keeps_state_def)

lemma start_only_by_submit:
  assumes reach: "reachable cfg w" and st: "step cfg a w = Some w'"
    and s: "\<not> submitting (cells w)" and s': "submitting (cells w')"
  shows "a = Ui Submit"
proof -
  have q: "queue w = []" using settled_invariant [OF reach] by (simp add: settled_def)
  have fuel: "settle_fuel = Suc 2" by (simp add: settle_fuel_def)
  show ?thesis
  proof (cases a)
    case (Ui e)
    show ?thesis
    proof (rule ccontr)
      assume "a \<noteq> Ui Submit"
      with Ui have "e \<noteq> Submit" by simp
      from ui_handler_no_start [OF this, of w cfg] q
      have "UpdSubmitting True \<notin> set (queue (ui_handler cfg e w))" by simp
      moreover have "settle (Suc 2) cfg (ui_handler cfg e w) = Some w'"
        using st Ui fuel by (simp split: if_splits)
      ultimately have "\<not> submitting (cells w')"
        using settle_no_start s cells_ui_handler by metis
      with s' show False by simp
    qed
  next
    case (Resume i)
    let ?w0 = "w\<lparr>tasks := take i (tasks w) @ drop (Suc i) (tasks w)\<rparr>"
    have r: "settle (Suc 2) cfg (run_task cfg (tasks w ! i) ?w0) = Some w'"
      using st Resume fuel by (simp split: if_splits)
    have "UpdSubmitting True \<notin> set (queue (run_task cfg (tasks w ! i) ?w0))"
      using run_task_no_start [of ?w0] q by simp
    moreover have "cells (run_task cfg (tasks w ! i) ?w0) = cells w"
      by (cases "tasks w ! i") simp_all
    ultimately have "\<not> submitting (cells w')" using settle_no_start [OF r] s by metis
    with s' show ?thesis by simp
  qed
qed

lemma settle_idle_cells:
  "settle (Suc n) cfg w = Some w' \<Longrightarrow> queue w = [] \<or> \<not> mounted w \<Longrightarrow> cells w' = cells w"
  by (auto split: if_splits)

lemma end_only_by_outcome:
  assumes reach: "reachable cfg w" and st: "step cfg (Ui e) w = Some w'"
    and e: "\<not> writes_errors e"
  shows "cells w' = cells w"
proof -
  have q: "queue w = []" using settled_invariant [OF reach] by (simp add: settled_def)
  have res: "settle (Suc 2) cfg (ui_handler cfg e w) = Some w'"
    using st by (simp add: settle_fuel_def numeral_3_eq_3 split: if_splits)
  have "queue (ui_handler cfg e w) = [] \<or> \<not> mounted (ui_handler cfg e w)"
  proof (cases e)
    case (Handle h raw)
    with e q show ?thesis by (cases h) (simp_all add: call_if_def)
  qed (use e in \<open>simp_all add: unmount_def call_if_def\<close>)
  from settle_idle_cells [OF res this] show ?thesis by (simp add: cells_ui_handler)
qed

text \<open>C7. The submission status refines the specification's state machine: every step of
  a reachable instance is a step of the abstract machine. Only a submit request starts a
  submission; a submission ends only when a continuation resumes, or when an event that
  writes the error map (a reset among them) re-runs the gate while submitting; a blur or
  the unmount never changes the status.\<close>

theorem submission_refines:
  assumes reach: "reachable cfg w" and st: "step cfg a w = Some w'"
  shows "spec_step a (status_of w) (status_of w')"
proof (cases "submitting (cells w) = submitting (cells w')")
  case True
  then show ?thesis by (simp add: status_of_def spec_step_iff)
next
  case False
  show ?thesis
  proof (cases "submitting (cells w)")
    case True
    with False have s': "\<not> submitting (cells w')" by simp
    have "ends_submission a"
    proof (cases a)
      case (Ui e)
      show ?thesis
      proof (rule ccontr)
        assume "\<not> ends_submission a"
        with Ui have "\<not> writes_errors e" by simp
        from end_only_by_outcome [OF reach _ this] st Ui have "cells w' = cells w" by simp
        with False show False by simp
      qed
    qed simp
    with True s' show ?thesis by (simp add: status_of_def spec_step_iff)
  next
    case s: False
    with False have s': "submitting (cells w')" by simp
    from start_only_by_submit [OF reach st s s'] s s' show ?thesis
      by (simp add: status_of_def spec_step_iff)
  qed
qed

theorem submission_refines_witness:
  "\<exists>w'. step cfg_resolve (Ui Submit) (mount cfg_resolve) = Some w'
     \<and> spec_step (Ui Submit) (status_of (mount cfg_resolve)) (status_of w')"
proof -
  have "enabled (Ui Submit) (mount cfg_resolve)" using mount_facts by (simp add: enabled_def)
  then obtain w' where st: "step cfg_resolve (Ui Submit) (mount cfg_resolve) = Some w'"
    using step_total by blast
  from submission_refines [OF reachable.init st] st show ?thesis by blast
qed

end
