(* ===== verification/Spec2Isabelle.thy ===== *)
theory Spec2Isabelle
  imports Actions Liveness Shapes Refinement
begin

text \<open>
  \<^bold>\<open>A verification library for react-form-events.\<close>
  The program is one React hook, \<open>useForm\<close> in \<open>src/lib/index.tsx\<close>, together with the
  adapter \<open>validateYupError\<close>. The hook keeps a values object, an error object, a
  \<open>submitting\<close> flag and a \<open>fieldChanged\<close> marker in \<open>useState\<close> cells, and it hands
  field binding descriptors and action callbacks to the UI. Every mutation goes through a
  small pipeline, and the caller's lifecycle hooks are notified along the way. This library
  models the hook's code together with the part of React it relies on (batched setters, the
  \<open>Object.is\<close> bail-out, effects with dependencies, resumption after \<open>await\<close>), and it
  proves the properties below over every state an instance can reach.

  \<^bold>\<open>Theories and what they model.\<close>
  \<^item> \<open>Prelude\<close>: JavaScript values (\<open>jsval\<close>), whose objects carry an identity so that
    \<open>===\<close> compares them by reference (\<open>js_strict_eq\<close>). Plain objects are association
    lists, read with \<open>js_get\<close> (missing keys give \<open>undefined\<close>), written with
    \<open>AList.update\<close> and spread with \<open>js_spread\<close>; \<open>??\<close> is \<open>js_coalesce\<close>.
    \<open>js_own_keys\<close> is the enumeration order of \<open>for ... in\<close> and \<open>Object.keys\<close>:
    array-index keys first, ascending, then the others in insertion order. It is a
    permutation of the insertion order (\<open>mset_js_own_keys\<close>) and equals it on objects
    without array-index keys (\<open>js_own_keys_plain\<close>). The two loops whose order is
    observable, \<open>setAllFields\<close> and the registration sweep, iterate it. The other
    loops over keys (\<open>some\<close>, \<open>every\<close>, and the error writes of \<open>setAllErrors\<close>,
    \<open>clearAllErrors\<close> and \<open>defaultFormErrors\<close>) iterate the insertion order. Their
    results do not depend on the order, except for the insertion order of new keys,
    which enumeration restores.
  \<^item> \<open>Stores\<close> (lines 125--189): the cells as the record \<open>form_state\<close>. A setter call
    is a queued \<open>update\<close>, applied at commit by \<open>apply_update\<close>; a write of a fresh object
    draws a new identity from \<open>nextObjId\<close>. The store operations \<open>setForm\<close>,
    \<open>setError\<close>, \<open>setAllErrors\<close>, \<open>clearAllErrors\<close>, \<open>resetForm\<close> and
    \<open>shouldFormSubmitDefault\<close> return the updates they queue. The derived flags are
    \<open>hasErrors\<close>, \<open>isDirty\<close> and \<open>isSemiDirty\<close>.
  \<^item> \<open>Yup\<close> (lines 416--444): \<open>yupToFormErrors\<close> and \<open>validateYupError\<close>. The schema is a
    parameter.
  \<^item> \<open>Bindings\<close> (lines 203--328): the snapshot \<open>form_self\<close>, the descriptors of
    \<open>registerField\<close>, \<open>registerCheckBoxField\<close> and \<open>registerRadioField\<close>, and the
    value extraction of their handlers.
  \<^item> \<open>Hook\<close> (lines 107--412): the body of \<open>useForm\<close> on an explicit \<open>world\<close>.
    \<^item> The caller's hooks are given by a \<open>config\<close>. Every call of a hook is appended to
      \<open>calls\<close>, which is the observable behaviour.
    \<^item> The change pipeline is \<open>changeValue\<close>, \<open>onFieldChangingDefault\<close> and
      \<open>setAllFields\<close>.
    \<^item> Submission is \<open>handleSubmit\<close> and \<open>onSubmit\<close>. The latter is split at its
      \<open>await\<close>s into continuations (\<open>task\<close>), resumed by \<open>run_task\<close>.
    \<^item> The effects are \<open>didChange_effect\<close> and \<open>submit_effect\<close>, each with its
      recorded dependencies.
    \<^item> The lifecycle is \<open>render\<close> (which calls \<open>formWillMount\<close>), \<open>mount\<close> and
      \<open>unmount\<close>.
  \<^item> \<open>Runtime\<close>: React's scheduling, which is not code of this repository and is modelled
    from its documented behaviour.
    \<^item> \<open>settle\<close> commits the queue, renders when a cell changed by \<open>Object.is\<close>, and
      runs the effects whose dependencies changed, until the queue is empty.
    \<^item> \<open>step\<close> is one action: an event of the public surface (\<open>ui_handler\<close>) or the
      resumption of a pending continuation.
    \<^item> \<open>reachable\<close> holds of the states an instance can reach from its mount.
  \<^item> \<open>Settled\<close>, \<open>ChangePipeline\<close>, \<open>Submission\<close>, \<open>Liveness\<close>, \<open>Lifecycle\<close> and
    \<open>Shapes\<close> hold the properties, each component's over the runtime.
  \<^item> \<open>Flows\<close> composes the components: the handlers with the descriptors of the next
    render, the validation adapter with \<open>setAllErrors\<close>, and \<open>resetForm\<close> as a step.
  \<^item> \<open>Refinement\<close> states the specification's Idle/Submitting machine as the inductive
    \<open>spec_step\<close>, with the abstraction \<open>status_of\<close> (the \<open>submitting\<close> cell).
  \<^item> \<open>Actions\<close> covers the other actions of the public surface as steps: blur,
    \<open>clearAllErrors\<close> and reset.

  \<^bold>\<open>What is proved.\<close>
  \<^item> Invariants of the reachable states:
    \<^item> \<open>Settled.reachable_settled\<close>: the queue is drained, effect dependencies are in sync,
      identities are fresh, the change marker is serviced, and the UI's closures come from
      the current cells.
    \<^item> \<open>Submission.submitting_in_flight\<close>: while mounted, \<open>submitting\<close> is set only for
      a submission in flight or after a rejected gate.
    \<^item> \<open>Lifecycle.unmount_once\<close>: \<open>formWillUnmount\<close> fires exactly once.
    \<^item> \<open>Shapes.reachable_cells_ok\<close>: both objects keep distinct keys and all default
      fields.
  \<^item> Liveness: \<open>Liveness.submission_completes\<close>, every submission completes once its
    promises settle.
  \<^item> Refinement: \<open>Refinement.submission_refines\<close>, every step of a reachable instance is
    a step of the abstract submission machine. Only a submit request starts a submission.
    A submission ends only when a continuation resumes, or when an event that writes the
    error map re-runs the gate.
  \<^item> Ordering: \<open>ChangePipeline.setAllFields_forwards_in_order\<close> and
    \<open>Lifecycle.mount_sequence\<close> give the order of the calls of one batch.
  \<^item> Exclusivity: \<open>Bindings.radio_exclusive\<close>, at most one radio option of a field is
    checked.
  \<^item> Functional behaviour of each pipeline through the runtime, errors included. See
    \<open>change_pipeline_default\<close>, \<open>submit_default_gate\<close>, \<open>resume_submit_outcome\<close> and
    \<open>resume_gate_rejected\<close>. \<open>change_pipeline_default\<close> covers every field name. The
    empty name is a boundary of the code: the effect's \<open>if (fieldChanged)\<close> treats it as
    absent, so its change is never reported (\<open>settle_marked_empty\<close>,
    \<open>change_empty_name_silent\<close>).
  \<^item> Termination: \<open>settle_fuel_enough\<close>, and \<open>step_total\<close> (a step succeeds exactly
    when it is enabled).
  \<^item> Round trips: \<open>setAllErrors_roundtrip\<close> on the error store, and
    \<open>Flows.binding_roundtrip\<close> from a handler to the next descriptors.
  \<^item> The store laws (idempotence, equivalence with a reference).
  \<^item> The refinement of the Yup adapter to "first message per path".
  \<^item> The places where the code and the specification disagree, as general theorems over
    the reachable states:
    \<^item> \<open>Submission.change_during_submit_resubmits\<close>: an edit during a submission runs
      the gate and \<open>formDidSubmit\<close> again.
    \<^item> \<open>Submission.gate_rejection_stuck\<close>: a rejecting gate leaves the form submitting
      with nothing pending.
    \<^item> \<open>Lifecycle.formWillMount_every_render\<close>: the "one-time" \<open>formWillMount\<close> is
      called again by every step that changes the state.
    \<^item> \<open>ChangePipeline.setAllFields_default_argument\<close>: \<open>setAllFields()\<close> writes back
      the first render's values.

  \<^bold>\<open>Fuel.\<close> The commit loop has fuel \<open>settle_fuel = 3\<close>, and three is enough. After the
  handler's batch, the effects queue only \<open>setFieldChanged(null)\<close> and
  \<open>setSubmitting(false)\<close>. The render these cause queues nothing, so at most two renders
  happen. \<open>settle_fuel_enough\<close> proves that the loop never runs out.

  \<^bold>\<open>Not modelled.\<close>
  \<^item> React's StrictMode double invocation and concurrent rendering: the code does not
    depend on them.
  \<^item> JavaScript numbers other than integers, in particular \<open>NaN\<close> and \<open>-0\<close>, on which
    \<open>Object.is\<close> (the bail-out) and \<open>!==\<close> (the dirty flags) disagree. Values are
    compared only by identity or equality, so integers are enough for every other path.
  \<^item> The DOM event objects beyond \<open>target.value\<close> and \<open>target.checked\<close>.
  \<^item> \<open>e.preventDefault()\<close>, which has no effect on the state.
  \<^item> The Yup library itself, which is a parameter.
  \<^item> Calling \<open>useForm\<close> without arguments, which throws while destructuring before any
    state exists.
  \<^item> The asynchronous completion of \<open>submitDidCatch\<close> and \<open>formDidFinally\<close>, which
    the source neither awaits nor observes.
\<close>

end
